theory Spec2Isabelle
  imports Complex_Main
begin

section \<open>Strings\<close>

text \<open>
  Source strings are modelled as \<open>string\<close> (a list of 8-bit characters); the source's
  UTF-16 code units and these characters coincide on ASCII text, which is what every
  pattern and keyword of the detectors is written in.
\<close>

text \<open>\<open>code.split('\n')\<close>: the pieces between newline characters; the empty text gives one
  empty line.\<close>

fun split_acc :: "string \<Rightarrow> string \<Rightarrow> string list" where
  "split_acc cur [] = [rev cur]"
| "split_acc cur (c # cs) =
     (if c = CHR 0x0A then rev cur # split_acc [] cs else split_acc (c # cur) cs)"

definition split_lines :: "string \<Rightarrow> string list" where
  "split_lines code = split_acc [] code"

text \<open>
  Character classes on ASCII, read off the bits of a character (\<open>b0\<close> is the lowest bit):
  the lower-case letters are the codes \<open>0x61\<close> to \<open>0x7A\<close>, the upper-case letters \<open>0x41\<close> to
  \<open>0x5A\<close>, the digits \<open>0x30\<close> to \<open>0x39\<close>; a letter's case is its bit \<open>b5\<close>.
\<close>

text \<open>The low five bits hold a number from 1 to 26.\<close>

definition letter_index :: "bool \<Rightarrow> bool \<Rightarrow> bool \<Rightarrow> bool \<Rightarrow> bool \<Rightarrow> bool" where
  "letter_index b0 b1 b2 b3 b4 =
     ((b0 \<or> b1 \<or> b2 \<or> b3 \<or> b4) \<and> \<not> (b4 \<and> b3 \<and> (b2 \<or> (b1 \<and> b0))))"

fun is_lower :: "char \<Rightarrow> bool" where
  "is_lower (Char b0 b1 b2 b3 b4 b5 b6 b7) = (\<not> b7 \<and> b6 \<and> b5 \<and> letter_index b0 b1 b2 b3 b4)"

fun is_upper :: "char \<Rightarrow> bool" where
  "is_upper (Char b0 b1 b2 b3 b4 b5 b6 b7) = (\<not> b7 \<and> b6 \<and> \<not> b5 \<and> letter_index b0 b1 b2 b3 b4)"

fun is_digit :: "char \<Rightarrow> bool" where
  "is_digit (Char b0 b1 b2 b3 b4 b5 b6 b7) = (\<not> b7 \<and> \<not> b6 \<and> b5 \<and> b4 \<and> \<not> (b3 \<and> (b2 \<or> b1)))"

text \<open>\<open>\w\<close> is \<open>[A-Za-z0-9_]\<close>.\<close>

definition is_word :: "char \<Rightarrow> bool" where
  "is_word c = (is_lower c \<or> is_upper c \<or> is_digit c \<or> c = CHR ''_'')"

text \<open>\<open>\s\<close> on ASCII: tab, line feed, vertical tab, form feed, carriage return, space.\<close>

definition is_space :: "char \<Rightarrow> bool" where
  "is_space c = (c = CHR 0x09 \<or> c = CHR 0x0A \<or> c = CHR 0x0B \<or> c = CHR 0x0C \<or> c = CHR 0x0D
                 \<or> c = CHR '' '')"

fun to_upper :: "char \<Rightarrow> char" where
  "to_upper (Char b0 b1 b2 b3 b4 b5 b6 b7) =
     (if is_lower (Char b0 b1 b2 b3 b4 b5 b6 b7) then Char b0 b1 b2 b3 b4 False b6 b7
      else Char b0 b1 b2 b3 b4 b5 b6 b7)"

fun to_lower :: "char \<Rightarrow> char" where
  "to_lower (Char b0 b1 b2 b3 b4 b5 b6 b7) =
     (if is_upper (Char b0 b1 b2 b3 b4 b5 b6 b7) then Char b0 b1 b2 b3 b4 True b6 b7
      else Char b0 b1 b2 b3 b4 b5 b6 b7)"

text \<open>The bit patterns are the code ranges of ASCII.\<close>

lemma is_lower_range: "is_lower c \<longleftrightarrow> 97 \<le> (of_char c :: nat) \<and> (of_char c :: nat) \<le> 122"
  by (cases c) (simp add: letter_index_def, argo?)

lemma is_upper_range: "is_upper c \<longleftrightarrow> 65 \<le> (of_char c :: nat) \<and> (of_char c :: nat) \<le> 90"
  by (cases c) (simp add: letter_index_def, argo?)

lemma is_digit_range: "is_digit c \<longleftrightarrow> 48 \<le> (of_char c :: nat) \<and> (of_char c :: nat) \<le> 57"
  by (cases c) (simp, argo?)

lemma to_upper_code: "is_lower c \<Longrightarrow> (of_char (to_upper c) :: nat) + 32 = of_char c"
  by (cases c) (simp add: letter_index_def)

lemma to_lower_code: "is_upper c \<Longrightarrow> (of_char (to_lower c) :: nat) = of_char c + 32"
  by (cases c) (simp add: letter_index_def)

lemma to_upper_other: "\<not> is_lower c \<Longrightarrow> to_upper c = c"
  by (cases c) simp

text \<open>\<open>String.prototype.toLowerCase\<close> and \<open>includes\<close>.\<close>

definition toLowerCase :: "string \<Rightarrow> string" where
  "toLowerCase s = map to_lower s"

fun starts_with :: "string \<Rightarrow> string \<Rightarrow> bool" where
  "starts_with [] s = True"
| "starts_with (p # ps) [] = False"
| "starts_with (p # ps) (c # cs) = (p = c \<and> starts_with ps cs)"

fun includes_str :: "string \<Rightarrow> string \<Rightarrow> bool" where
  "includes_str [] sub = (sub = [])"
| "includes_str (c # cs) sub = (starts_with sub (c # cs) \<or> includes_str cs sub)"

section \<open>Regular expressions of the host language\<close>

text \<open>
  The abstract syntax of the patterns the detectors use. A capturing group matches as its
  body does, so groups are not constructors of their own.
\<close>

datatype cls_item = CChar char | CRange char char | CWord | CSpace | CDigit

datatype rx =
    Eps
  | Lit char
  | AnyChar
  | Cls bool "cls_item list"
  | WordB
  | Seq rx rx
  | Alt rx rx
  | Star rx
  | Plus rx
  | Opt rx
  | AtLeast nat rx

text \<open>Case-insensitive comparison canonicalises both characters to upper case.\<close>

definition chr_eq :: "bool \<Rightarrow> char \<Rightarrow> char \<Rightarrow> bool" where
  "chr_eq ic a b = (if a = b then True else if ic then to_upper a = to_upper b else False)"

fun item_has :: "cls_item \<Rightarrow> char \<Rightarrow> bool" where
  "item_has (CChar a) c = (a = c)"
| "item_has (CRange lo hi) c =
     ((of_char lo :: nat) \<le> of_char c \<and> (of_char c :: nat) \<le> of_char hi)"
| "item_has CWord c = is_word c"
| "item_has CSpace c = is_space c"
| "item_has CDigit c = is_digit c"

text \<open>A class contains \<open>c\<close> under the \<open>i\<close> flag when it contains a character with the same
  canonical form: \<open>c\<close> itself, its upper-case or its lower-case form.\<close>

definition cls_has :: "bool \<Rightarrow> cls_item list \<Rightarrow> char \<Rightarrow> bool" where
  "cls_has ic items c =
     list_ex (\<lambda>it. item_has it c \<or> (ic \<and> (item_has it (to_upper c) \<or> item_has it (to_lower c))))
       items"

definition line_terminator :: "char \<Rightarrow> bool" where
  "line_terminator c = (c = CHR 0x0A \<or> c = CHR 0x0D)"

text \<open>
  A position in the text being searched: the character before it (none at the start of
  the text) and the text from it on.
\<close>

type_synonym cursor = "char option \<times> string"

definition at_word_boundary :: "char option \<Rightarrow> string \<Rightarrow> bool" where
  "at_word_boundary p cs =
     ((case p of None \<Rightarrow> False | Some c \<Rightarrow> is_word c)
        \<noteq> (case cs of [] \<Rightarrow> False | d # _ \<Rightarrow> is_word d))"

fun one_char :: "(char \<Rightarrow> bool) \<Rightarrow> string \<Rightarrow> cursor list" where
  "one_char P [] = []"
| "one_char P (d # ds) = (if P d then [(Some d, ds)] else [])"

text \<open>The termination measure of the matcher: \<open>r+\<close> and \<open>r{n,}\<close> unfold to \<open>r*\<close>.\<close>

fun rx_weight :: "rx \<Rightarrow> nat" where
  "rx_weight (Seq r1 r2) = Suc (rx_weight r1 + rx_weight r2)"
| "rx_weight (Alt r1 r2) = Suc (rx_weight r1 + rx_weight r2)"
| "rx_weight (Star r) = Suc (rx_weight r)"
| "rx_weight (Plus r) = Suc (Suc (rx_weight r))"
| "rx_weight (Opt r) = Suc (rx_weight r)"
| "rx_weight (AtLeast n r) = Suc (Suc (n + rx_weight r))"
| "rx_weight r = 0"

text \<open>
  The backtracking matcher: \<open>ends ic r p cs\<close> lists, in the order the backtracking search
  tries them, the positions where a match of \<open>r\<close> that starts at the position \<open>(p, cs)\<close> can
  end. Quantifiers are greedy; an iteration of \<open>r*\<close> that consumes nothing is rejected.
\<close>

function ends :: "bool \<Rightarrow> rx \<Rightarrow> char option \<Rightarrow> string \<Rightarrow> cursor list" where
  "ends ic Eps p cs = [(p, cs)]"
| "ends ic (Lit c) p cs = one_char (chr_eq ic c) cs"
| "ends ic AnyChar p cs = one_char (\<lambda>c. \<not> line_terminator c) cs"
| "ends ic (Cls neg items) p cs = one_char (\<lambda>c. cls_has ic items c \<noteq> neg) cs"
| "ends ic WordB p cs = (if at_word_boundary p cs then [(p, cs)] else [])"
| "ends ic (Seq r1 r2) p cs = concat (map (\<lambda>c. ends ic r2 (fst c) (snd c)) (ends ic r1 p cs))"
| "ends ic (Alt r1 r2) p cs = ends ic r1 p cs @ ends ic r2 p cs"
| "ends ic (Star r) p cs =
     concat (map (\<lambda>c. if length (snd c) < length cs then ends ic (Star r) (fst c) (snd c) else [])
                 (ends ic r p cs)) @ [(p, cs)]"
| "ends ic (Plus r) p cs = concat (map (\<lambda>c. ends ic (Star r) (fst c) (snd c)) (ends ic r p cs))"
| "ends ic (Opt r) p cs = ends ic r p cs @ [(p, cs)]"
| "ends ic (AtLeast 0 r) p cs = ends ic (Star r) p cs"
| "ends ic (AtLeast (Suc n) r) p cs =
     concat (map (\<lambda>c. ends ic (AtLeast n r) (fst c) (snd c)) (ends ic r p cs))"
  by pat_completeness auto
termination
  by (relation "measures [\<lambda>(ic, r, p, cs). rx_weight r, \<lambda>(ic, r, p, cs). length cs]") auto

declare ends.simps [simp del]

text \<open>
  A sufficient condition, read off the pattern, for every match to take at least one
  character. A loop over \<open>regex.exec\<close> that does not step over empty matches ends on such a
  pattern.
\<close>

fun consuming :: "rx \<Rightarrow> bool" where
  "consuming (Lit c) = True"
| "consuming AnyChar = True"
| "consuming (Cls neg items) = True"
| "consuming (Seq r1 r2) = (consuming r1 \<or> consuming r2)"
| "consuming (Alt r1 r2) = (consuming r1 \<and> consuming r2)"
| "consuming (Plus r) = consuming r"
| "consuming (AtLeast n r) = (0 < n \<and> consuming r)"
| "consuming r = False"

text \<open>
  The leftmost match of \<open>r\<close> at or after the position \<open>(p, cs)\<close>, whose index is \<open>i\<close>: the
  index where the match starts, the text from there on, and the position where it ends.
\<close>

fun search_from :: "bool \<Rightarrow> rx \<Rightarrow> char option \<Rightarrow> string \<Rightarrow> nat \<Rightarrow> (nat \<times> string \<times> cursor) option" where
  "search_from ic r p [] i =
     (case ends ic r p [] of e # _ \<Rightarrow> Some (i, [], e) | [] \<Rightarrow> None)"
| "search_from ic r p (c # cs) i =
     (case ends ic r p (c # cs) of
        e # _ \<Rightarrow> Some (i, c # cs, e)
      | [] \<Rightarrow> search_from ic r (Some c) cs (Suc i))"

lemma search_from_suffix:
  "search_from ic r p cs i = Some (b, from_b, e) \<Longrightarrow> length from_b \<le> length cs \<and> i \<le> b"
  by (induction cs arbitrary: p i) (fastforce split: list.splits)+

text \<open>The text of a match that starts at the text \<open>from_b\<close> and ends at the text \<open>rest\<close>.\<close>

definition matched_text :: "string \<Rightarrow> string \<Rightarrow> string" where
  "matched_text from_b rest = take (length from_b - length rest) from_b"

text \<open>The position at index \<open>n\<close> of a text, if the text is that long.\<close>

fun advance :: "nat \<Rightarrow> char option \<Rightarrow> string \<Rightarrow> cursor option" where
  "advance 0 p cs = Some (p, cs)"
| "advance (Suc n) p [] = None"
| "advance (Suc n) p (c # cs) = advance n (Some c) cs"

text \<open>
  A regular-expression object created with the flags \<open>gi\<close>: its pattern and its mutable
  \<open>lastIndex\<close>, which a search starts from and which every search writes.
\<close>

record regexp =
  pat :: rx
  lastIndex :: nat

definition new_regexp :: "rx \<Rightarrow> regexp" where
  "new_regexp r = \<lparr>pat = r, lastIndex = 0\<rparr>"

text \<open>
  \<open>regex.exec(s)\<close> on a global regular expression: the search starts at \<open>lastIndex\<close>; a match
  (its index and its text) sets \<open>lastIndex\<close> to its end; a failure, also when \<open>lastIndex\<close>
  lies beyond the text, resets \<open>lastIndex\<close> to 0.
\<close>

definition regexp_exec :: "regexp \<Rightarrow> string \<Rightarrow> (nat \<times> string) option \<times> regexp" where
  "regexp_exec re s =
     (case advance (lastIndex re) None s of
        None \<Rightarrow> (None, re\<lparr>lastIndex := 0\<rparr>)
      | Some (p, cs) \<Rightarrow>
          (case search_from True (pat re) p cs (lastIndex re) of
             None \<Rightarrow> (None, re\<lparr>lastIndex := 0\<rparr>)
           | Some (b, from_b, e) \<Rightarrow>
               (Some (b, matched_text from_b (snd e)),
                re\<lparr>lastIndex := b + length (matched_text from_b (snd e))\<rparr>)))"

text \<open>\<open>regex.test(s)\<close> is \<open>regex.exec(s) !== null\<close>.\<close>

definition regexp_test :: "regexp \<Rightarrow> string \<Rightarrow> bool \<times> regexp" where
  "regexp_test re s = (case regexp_exec re s of (m, re') \<Rightarrow> (m \<noteq> None, re'))"

text \<open>
  \<open>patterns.some(pattern => pattern.test(line))\<close>: the patterns are tested in order up to
  the first that matches; each tested pattern keeps the \<open>lastIndex\<close> its test wrote.
\<close>

fun some_test :: "regexp list \<Rightarrow> string \<Rightarrow> bool \<times> regexp list" where
  "some_test [] line = (False, [])"
| "some_test (re # res) line =
     (case regexp_test re line of
        (True, re') \<Rightarrow> (True, re' # res)
      | (False, re') \<Rightarrow> (case some_test res line of (b, res') \<Rightarrow> (b, re' # res')))"

text \<open>
  \<open>s.match(regex)\<close> with a global regular expression: \<open>lastIndex\<close> is set to 0, every match is
  collected from left to right, and after an empty match the search moves on by one
  character. The result \<open>null\<close> of the source is the empty list here; \<open>lastIndex\<close> is 0
  again afterwards, so the call leaves no state behind.
\<close>

function match_from :: "bool \<Rightarrow> rx \<Rightarrow> char option \<Rightarrow> string \<Rightarrow> string list" where
  "match_from ic r p cs =
     (case search_from ic r p cs 0 of
        None \<Rightarrow> []
      | Some (b, from_b, e) \<Rightarrow>
          matched_text from_b (snd e) #
            (if matched_text from_b (snd e) = []
             then (case from_b of [] \<Rightarrow> [] | d # rest \<Rightarrow> match_from ic r (Some d) rest)
             else match_from ic r (fst e) (snd e)))"
  by pat_completeness auto
termination
proof (relation "measure (\<lambda>(ic, r, p, cs). length cs)")
  show "wf (measure (\<lambda>(ic, r, p, cs). length cs))" by simp
next
  fix ic r p cs x2 b y from_b e d rest
  assume "search_from ic r p cs 0 = Some x2" "(b, y) = x2" "(from_b, e) = y" "from_b = d # rest"
  then have "length (d # rest) \<le> length cs"
    using search_from_suffix [of ic r p cs 0 b from_b e] by simp
  then show "((ic, r, Some d, rest), (ic, r, p, cs)) \<in> measure (\<lambda>(ic, r, p, cs). length cs)"
    by simp
next
  fix ic r p cs x2 b y from_b e
  assume "search_from ic r p cs 0 = Some x2" "(b, y) = x2" "(from_b, e) = y"
    and ne: "matched_text from_b (snd e) \<noteq> []"
  then have "length from_b \<le> length cs"
    using search_from_suffix [of ic r p cs 0 b from_b e] by simp
  moreover from ne have "length (snd e) < length from_b"
    by (simp add: matched_text_def)
  ultimately show "((ic, r, fst e, snd e), (ic, r, p, cs)) \<in> measure (\<lambda>(ic, r, p, cs). length cs)"
    by (cases e) simp
qed

declare match_from.simps [simp del]

definition match_all :: "bool \<Rightarrow> rx \<Rightarrow> string \<Rightarrow> string list" where
  "match_all ic r s = match_from ic r None s"

text \<open>Building patterns: a literal word, a sequence, an alternation.\<close>

definition lits :: "string \<Rightarrow> rx" where
  "lits w = foldr (\<lambda>c r. Seq (Lit c) r) w Eps"

fun seqs :: "rx list \<Rightarrow> rx" where
  "seqs [] = Eps"
| "seqs [r] = r"
| "seqs (r # rs) = Seq r (seqs rs)"

fun alts :: "rx list \<Rightarrow> rx" where
  "alts [] = Eps"
| "alts [r] = r"
| "alts (r # rs) = Alt r (alts rs)"

definition words :: "string list \<Rightarrow> rx" where
  "words ws = alts (map lits ws)"

definition spaces :: rx where
  "spaces = Star (Cls False [CSpace])"

text \<open>Decimal notation of a number, as the host's \<open>toString\<close> and template literals give it
  for integers.\<close>

definition digit_char :: "nat \<Rightarrow> char" where
  "digit_char d = ''0123456789'' ! d"

function show_digits :: "int \<Rightarrow> string" where
  "show_digits n =
     (if n < 10 then [digit_char (nat n)]
      else show_digits (n div 10) @ [digit_char (nat (n mod 10))])"
  by pat_completeness auto
termination
  by (relation "measure nat") auto

declare show_digits.simps [simp del]

definition show_int :: "int \<Rightarrow> string" where
  "show_int i = (if i < 0 then CHR ''-'' # show_digits (- i) else show_digits i)"

section \<open>The issue model\<close>

datatype severity = Low | Medium | High

text \<open>
  \<open>VulnerabilityIssue\<close> of \<open>types/index.ts\<close>. Its fields \<open>range\<close> and \<open>diagnostic\<close> are \<open>null\<close> in
  every issue a detector builds and are left out.
\<close>

record VulnerabilityIssue =
  fileName :: string
  lineNumber :: int
  description :: string
  severity :: severity
  message :: string
  suggestedFix :: string

section \<open>The sensitive-logging detector\<close>

datatype SensitivePattern =
  SensitivePattern (sp_pattern: rx) (sp_description: string) (sp_severity: severity)
    (sp_category: string)

definition sensitiveMethodPatterns :: "SensitivePattern list" where
  "sensitiveMethodPatterns =
   [ SensitivePattern
       (seqs [lits ''.get'', words [''Customer'', ''User'', ''Personal'', ''Profile'', ''Account''],
              lits ''Data()''])
       ''Customer/user data is being logged - potential PII exposure'' High ''PII'',
     SensitivePattern
       (seqs [lits ''.get'', words [''Customer'', ''User'', ''Client''],
              words [''Info'', ''Information'', ''Details''], lits ''()''])
       ''Customer information is being logged - potential PII exposure'' High ''PII'',
     SensitivePattern
       (seqs [lits ''.get'', words [''Password'', ''Pass'', ''Pwd'', ''Secret'', ''Token'', ''Key''],
              lits ''()''])
       ''Password/secret data is being logged - security risk'' High ''Credentials'',
     SensitivePattern
       (seqs [lits ''.'', words [''password'', ''pass'', ''pwd'', ''secret'', ''token'', ''key''], WordB])
       ''Sensitive credential field is being logged'' High ''Credentials'',
     SensitivePattern
       (seqs [lits ''.get'', words [''Api'', ''API''], words [''Key'', ''Token'', ''Secret''],
              lits ''()''])
       ''API key/token is being logged - security risk'' High ''API_Credentials'',
     SensitivePattern
       (seqs [lits ''.'',
              words [''apiKey'', ''apiToken'', ''accessToken'', ''authToken'', ''bearerToken''], WordB])
       ''API credentials are being logged'' High ''API_Credentials'',
     SensitivePattern
       (seqs [lits ''.get'',
              words [''SSN'', ''SocialSecurity'', ''CreditCard'', ''Email'', ''Phone'', ''Address''],
              lits ''()''])
       ''Personal identifiable information (PII) is being logged'' High ''PII'',
     SensitivePattern
       (seqs [lits ''.'',
              words [''ssn'', ''socialSecurity'', ''creditCard'', ''email'', ''phone'', ''address'',
                     ''firstName'', ''lastName''], WordB])
       ''PII field is being logged'' Medium ''PII'',
     SensitivePattern
       (seqs [lits ''.get'', words [''Account'', ''Bank'', ''Card'', ''Payment''],
              words [''Number'', ''Info'', ''Data'', ''Details''], lits ''()''])
       ''Financial information is being logged - compliance risk'' High ''Financial'',
     SensitivePattern
       (seqs [lits ''.get'', words [''Session'', ''Cookie'', ''Auth''],
              words [''Id'', ''Data'', ''Info''], lits ''()''])
       ''Session/authentication data is being logged'' Medium ''Session'',
     SensitivePattern
       (lits ''.getData()'')
       ''Generic data method is being logged - review for sensitive content'' Low ''Generic'' ]"

definition log_levels :: rx where
  "log_levels = words [''info'', ''debug'', ''warn'', ''error'', ''trace'']"

text \<open>The six regular-expression objects of a newly constructed checker.\<close>

definition loggerPatterns :: "regexp list" where
  "loggerPatterns = map new_regexp
   [ seqs [lits ''LOGGER.'', log_levels, spaces, lits ''(''],
     seqs [lits ''LOG.'', log_levels, spaces, lits ''(''],
     seqs [lits ''logger.'', log_levels, spaces, lits ''(''],
     seqs [lits ''log.'', log_levels, spaces, lits ''(''],
     seqs [lits ''System.out.print'', Opt (lits ''ln''), spaces, lits ''(''],
     seqs [lits ''System.err.print'', Opt (lits ''ln''), spaces, lits ''(''] ]"

text \<open>A text between double quotes, as the templates of the source write it.\<close>

definition quoted :: "string \<Rightarrow> string" where
  "quoted m = [CHR 0x22] @ m @ [CHR 0x22]"

definition generateSuggestedFix :: "string \<Rightarrow> string \<Rightarrow> string" where
  "generateSuggestedFix category matchedPattern =
    (if category = ''PII'' then
       ''Remove PII logging. Consider logging only non-sensitive identifiers like user ID or hashed values. Replace ''
         @ quoted matchedPattern @ '' with sanitized data.''
     else if category = ''Credentials'' then
       ''Never log passwords or secrets. Remove '' @ quoted matchedPattern
         @ '' from log statement. Use masked values like '' @ quoted ''***''
         @ '' for debugging if necessary.''
     else if category = ''API_Credentials'' then
       ''API keys should never be logged. Remove '' @ quoted matchedPattern
         @ '' and consider logging only the first/last few characters for debugging.''
     else if category = ''Financial'' then
       ''Financial data logging violates compliance standards. Remove '' @ quoted matchedPattern
         @ '' and log only transaction IDs or sanitized references.''
     else if category = ''Session'' then
       ''Session data can be used for session hijacking. Remove '' @ quoted matchedPattern
         @ '' and log only session status or sanitized session info.''
     else if category = ''Generic'' then
       ''Review the content of '' @ quoted matchedPattern
         @ '' to ensure no sensitive data is logged. Consider creating specific non-sensitive logging methods.''
     else
       ''Review and remove sensitive data from logging statement containing ''
         @ quoted matchedPattern @ ''.'')"

definition sensitive_issue :: "SensitivePattern \<Rightarrow> int \<Rightarrow> string \<Rightarrow> VulnerabilityIssue" where
  "sensitive_issue p n m =
     \<lparr> fileName = [],
       lineNumber = n,
       description = sp_description p @ '': '' @ quoted m,
       severity = sp_severity p,
       message = ''Sensitive data is been exposed in log'',
       suggestedFix = generateSuggestedFix (sp_category p) m \<rparr>"

definition checkSensitivePatterns :: "string \<Rightarrow> int \<Rightarrow> VulnerabilityIssue list" where
  "checkSensitivePatterns line n =
     concat (map (\<lambda>p. map (sensitive_issue p n) (match_all True (sp_pattern p) line))
                 sensitiveMethodPatterns)"

text \<open>
  The loop the three line scanners of the source share (\<open>checkLoggingSensitivity\<close>,
  \<open>fallbackKeywordAnalysis\<close> and the loop of \<open>analyzeLoggingStatements\<close>): for each line, from
  index \<open>idx\<close> on, the logging test on the stateful patterns, then the analysis of the line
  under its 1-based number if the test succeeded. The patterns are returned as the loop
  leaves them.
\<close>

fun scan_lines ::
  "(string \<Rightarrow> int \<Rightarrow> VulnerabilityIssue list) \<Rightarrow> regexp list \<Rightarrow> string list \<Rightarrow> nat
     \<Rightarrow> VulnerabilityIssue list \<times> regexp list" where
  "scan_lines analyse res [] idx = ([], res)"
| "scan_lines analyse res (line # rest) idx =
     (case some_test res line of
        (hasLogging, res') \<Rightarrow>
          (case scan_lines analyse res' rest (Suc idx) of
             (issues, res'') \<Rightarrow>
               ((if hasLogging then analyse line (int idx + 1) else []) @ issues, res'')))"

definition checkLoggingSensitivity :: "regexp list \<Rightarrow> string \<Rightarrow> VulnerabilityIssue list \<times> regexp list" where
  "checkLoggingSensitivity res code = scan_lines checkSensitivePatterns res (split_lines code) 0"

section \<open>The semantic logging analyzer\<close>

datatype error = SyntaxError | Error string

definition SENSITIVE_KEYWORDS :: "(string \<times> string list) list" where
  "SENSITIVE_KEYWORDS =
   [ (''user_data'', [''user'', ''customer'', ''userdetails'', ''profile'', ''personal'', ''individual'']),
     (''authentication'', [''password'', ''secret'', ''token'', ''auth'', ''credential'', ''login'']),
     (''api_security'', [''api'', ''apikey'', ''bearer'', ''oauth'', ''authorization'']),
     (''financial'', [''payment'', ''card'', ''account number'', ''billing'', ''transaction'', ''money'']),
     (''personal_info'', [''email'', ''phone'', ''address'', ''ssn'', ''social security'', ''pii'']) ]"

text \<open>The three regular-expression objects of a newly constructed analyzer.\<close>

definition LOGGING_PATTERNS :: "regexp list" where
  "LOGGING_PATTERNS = map new_regexp
   [ seqs [words [''LOGGER'', ''LOG'', ''logger'', ''log''], spaces, lits ''.'', spaces,
           words [''info'', ''debug'', ''warn'', ''error'', ''trace'', ''severe'', ''warning''],
           spaces, lits ''(''],
     seqs [lits ''System'', spaces, lits ''.'', spaces, lits ''out'', spaces, lits ''.'', spaces,
           lits ''print'', Opt (lits ''ln''), spaces, lits ''(''],
     seqs [lits ''System'', spaces, lits ''.'', spaces, lits ''err'', spaces, lits ''.'', spaces,
           lits ''print'', Opt (lits ''ln''), spaces, lits ''(''] ]"

text \<open>
  The analyzer object. The embedding pipeline is the external model: it maps a text to its
  vector or throws. The asynchronous initialisation of the source sets \<open>embeddingPipeline\<close>
  and \<open>isInitialized\<close> when it succeeds.
\<close>

record SemanticLoggingAnalyzer =
  embeddingPipeline :: "(string \<Rightarrow> error + real list) option"
  isInitialized :: bool
  logging_patterns :: "regexp list"

datatype SemanticMatch =
  SemanticMatch (keyword: string) (similarity: real) (matchedText: string) (category: string)

definition SIMILARITY_THRESHOLD :: real where
  "SIMILARITY_THRESHOLD = 0.85"

text \<open>The source computes on floating-point numbers; the model computes on the reals.\<close>

definition cosineSimilarity :: "real list \<Rightarrow> real list \<Rightarrow> real" where
  "cosineSimilarity vecA vecB =
     (let dotProduct = sum_list (map2 (*) vecA vecB);
          normA = sqrt (sum_list (map (\<lambda>a. a * a) vecA));
          normB = sqrt (sum_list (map (\<lambda>b. b * b) vecB))
      in dotProduct / (normA * normB))"

text \<open>\<open>x.toFixed(1)\<close>: one digit after the point, a tie rounded away from zero.\<close>

definition toFixed1 :: "real \<Rightarrow> string" where
  "toFixed1 x =
     (let n = \<lfloor>\<bar>x\<bar> * 10 + 1 / 2\<rfloor>
      in (if x < 0 then ''-'' else []) @ show_int (n div 10) @ ''.'' @ [digit_char (nat (n mod 10))])"

definition getSeverityByCategory :: "string \<Rightarrow> severity" where
  "getSeverityByCategory cat =
     (if cat = ''authentication'' \<or> cat = ''api_security'' then High
      else if cat = ''financial'' \<or> cat = ''personal_info'' then High
      else if cat = ''user_data'' then Medium
      else Medium)"

definition getSuggestedFix :: "string \<Rightarrow> string \<Rightarrow> string" where
  "getSuggestedFix cat text =
    (if cat = ''authentication'' then
       ''Remove authentication data '' @ quoted text
         @ '' from logging. Never log passwords, tokens, or credentials. Use masked values or omit entirely.''
     else if cat = ''api_security'' then
       ''Remove API security data '' @ quoted text
         @ '' from logging. Log only non-sensitive request metadata or operation status.''
     else if cat = ''financial'' then
       ''Remove financial data '' @ quoted text
         @ '' from logging. Log only transaction IDs or sanitized references for compliance.''
     else if cat = ''personal_info'' then
       ''Remove personal information '' @ quoted text
         @ '' from logging. Use hashed values or user IDs instead of PII.''
     else if cat = ''user_data'' then
       ''Review user data '' @ quoted text
         @ '' in logging. Consider logging only user IDs or non-sensitive metadata.''
     else
       ''Review sensitive data '' @ quoted text
         @ '' in logging statement and remove if it contains confidential information.'')"

text \<open>\<open>m.replace(/^\.\s*/, '')\<close>: a leading dot and the white space after it are removed.\<close>

definition strip_leading_dot :: "string \<Rightarrow> string" where
  "strip_leading_dot m =
     (case ends False (Seq (Lit CHR ''.'') spaces) None m of
        e # _ \<Rightarrow> snd e
      | [] \<Rightarrow> m)"

definition extractLoggedContent :: "string \<Rightarrow> string list" where
  "extractLoggedContent line =
     (let stringMatches =
            match_all False
              (Alt (seqs [Lit CHR 0x22, Plus (Cls True [CChar CHR 0x22]), Lit CHR 0x22])
                   (seqs [Lit CHR 0x27, Plus (Cls True [CChar CHR 0x27]), Lit CHR 0x27])) line;
          methodMatches =
            match_all True (seqs [lits ''.'', spaces, lits ''get'', Plus (Cls False [CWord]), lits ''()'']) line;
          variableMatches =
            match_all True
              (seqs [WordB, Star (Cls False [CWord]),
                     words [''user'', ''customer'', ''pass'', ''secret'', ''token'', ''key'', ''auth'',
                            ''account'', ''payment''],
                     Star (Cls False [CWord]), WordB]) line;
          content = map (\<lambda>s. butlast (tl s)) stringMatches @ map strip_leading_dot methodMatches
                      @ variableMatches
      in filter (\<lambda>c. 2 < length c) content)"

text \<open>
  \<open>findSemanticMatches\<close>: an error of the pipeline on the text ends the search with no match;
  an error on a keyword skips that keyword.
\<close>

definition findSemanticMatches :: "SemanticLoggingAnalyzer \<Rightarrow> string \<Rightarrow> SemanticMatch list" where
  "findSemanticMatches a text =
     (case embeddingPipeline a of
        None \<Rightarrow> []
      | Some pipeline \<Rightarrow>
          (case pipeline text of
             Inl err \<Rightarrow> []
           | Inr textEmbedding \<Rightarrow>
               concat (map (\<lambda>(cat, keywords).
                 concat (map (\<lambda>kw.
                   (case pipeline kw of
                      Inl err \<Rightarrow> []
                    | Inr keywordEmbedding \<Rightarrow>
                        (if SIMILARITY_THRESHOLD \<le> cosineSimilarity textEmbedding keywordEmbedding
                         then [SemanticMatch kw (cosineSimilarity textEmbedding keywordEmbedding) text cat]
                         else []))) keywords)) SENSITIVE_KEYWORDS)))"

definition semantic_issue :: "int \<Rightarrow> SemanticMatch \<Rightarrow> VulnerabilityIssue" where
  "semantic_issue n m =
     \<lparr> fileName = [],
       lineNumber = n,
       description = ''Potential sensitive '' @ category m @ '' detected in logging: ''
         @ quoted (matchedText m) @ '' (similarity: '' @ toFixed1 (similarity m * 100) @ ''%)'',
       severity = getSeverityByCategory (category m),
       message = ''Potential sensitive information detected in logging:'',
       suggestedFix = getSuggestedFix (category m) (matchedText m) \<rparr>"

definition analyzeLoggingLine :: "SemanticLoggingAnalyzer \<Rightarrow> string \<Rightarrow> int \<Rightarrow> VulnerabilityIssue list" where
  "analyzeLoggingLine a line n =
     concat (map (\<lambda>content.
               map (semantic_issue n)
                 (filter (\<lambda>m. SIMILARITY_THRESHOLD \<le> similarity m) (findSemanticMatches a content)))
             (extractLoggedContent line))"

definition keyword_issue :: "int \<Rightarrow> string \<Rightarrow> VulnerabilityIssue" where
  "keyword_issue n m =
     \<lparr> fileName = [],
       lineNumber = n,
       description = ''Potential sensitive keyword detected in logging: '' @ quoted m
         @ '' (keyword matching)'',
       severity = Medium,
       message = ''Potential sensitive information detected in logging:'',
       suggestedFix = ''Review and remove sensitive keyword '' @ quoted m @ '' from logging statement.'' \<rparr>"

text \<open>\<open>Object.values(SENSITIVE_KEYWORDS).flat()\<close>.\<close>

definition allKeywords :: "string list" where
  "allKeywords = concat (map snd SENSITIVE_KEYWORDS)"

text \<open>
  \<open>fallbackLineAnalysis\<close>: for each keyword the pattern \<open>\bkeyword\b\<close> with the flags \<open>gi\<close>, and
  one issue of severity medium for each match.
\<close>

definition fallbackLineAnalysis :: "string \<Rightarrow> int \<Rightarrow> VulnerabilityIssue list" where
  "fallbackLineAnalysis line n =
     concat (map (\<lambda>kw. map (keyword_issue n) (match_all True (seqs [WordB, lits kw, WordB]) line))
                 allKeywords)"

definition fallbackKeywordAnalysis ::
  "SemanticLoggingAnalyzer \<Rightarrow> string \<Rightarrow> VulnerabilityIssue list \<times> SemanticLoggingAnalyzer" where
  "fallbackKeywordAnalysis a code =
     (case scan_lines fallbackLineAnalysis (logging_patterns a) (split_lines code) 0 of
        (issues, res) \<Rightarrow> (issues, a\<lparr>logging_patterns := res\<rparr>))"

text \<open>
  \<open>analyzeLoggingStatements\<close>. \<open>analyzeLoggingLine\<close> handles the errors of the pipeline itself
  (in \<open>findSemanticMatches\<close>), so the handler around its call, which falls back to
  \<open>fallbackLineAnalysis\<close> for the line, is never entered.
\<close>

definition analyzeLoggingStatements ::
  "SemanticLoggingAnalyzer \<Rightarrow> string \<Rightarrow> VulnerabilityIssue list \<times> SemanticLoggingAnalyzer" where
  "analyzeLoggingStatements a code =
     (if \<not> isInitialized a \<or> embeddingPipeline a = None then fallbackKeywordAnalysis a code
      else (case scan_lines (analyzeLoggingLine a) (logging_patterns a) (split_lines code) 0 of
              (issues, res) \<Rightarrow> (issues, a\<lparr>logging_patterns := res\<rparr>)))"

text \<open>The analyzer right after construction, before the model has loaded.\<close>

definition new_analyzer :: SemanticLoggingAnalyzer where
  "new_analyzer =
     \<lparr> embeddingPipeline = None, isInitialized = False, logging_patterns = LOGGING_PATTERNS \<rparr>"

section \<open>The rule engine\<close>

datatype rule_severity = RLow | RMedium | RHigh | RCritical

text \<open>The interfaces \<open>Rule\<close> and \<open>RuleSet\<close>; the optional \<open>pattern\<close> is the source text of a regular
  expression.\<close>

record Rule =
  rule_id :: string
  rule_name :: string
  rule_description :: string
  rule_severity :: rule_severity
  rule_pattern :: "string option"
  rule_enabled :: bool

record RuleSet =
  version :: string
  rules :: "Rule list"

text \<open>A backslash followed by a character, as the pattern strings write \<open>\s\<close> and \<open>\w\<close>.\<close>

definition esc :: "char \<Rightarrow> string" where
  "esc c = [CHR 0x5C, c]"

definition naming_pattern :: string where
  "naming_pattern =
     ''static'' @ esc CHR ''s'' @ ''+final'' @ esc CHR ''s'' @ ''+'' @ esc CHR ''w'' @ ''+''
       @ esc CHR ''s'' @ ''+([a-z][A-Za-z0-9_]*)''"

definition hardcoded_pattern :: string where
  "hardcoded_pattern =
     ''(?:api[_-]?key|apikey|secret|password|pwd|token)'' @ esc CHR ''s'' @ ''*='' @ esc CHR ''s''
       @ ''*['' @ [CHR 0x22, CHR 0x27] @ '']([^'' @ [CHR 0x22, CHR 0x27] @ '']{8,})[''
       @ [CHR 0x22, CHR 0x27] @ '']''"

definition getDefaultRules :: RuleSet where
  "getDefaultRules =
     \<lparr> version = ''1.0.0'',
       rules =
         [ \<lparr> rule_id = ''naming-convention'',
             rule_name = ''Constant Naming Convention'',
             rule_description = ''Static final variables should be in UPPER_CASE_WITH_UNDERSCORES'',
             rule_severity = RMedium,
             rule_pattern = Some naming_pattern,
             rule_enabled = True \<rparr>,
           \<lparr> rule_id = ''excessive-nesting'',
             rule_name = ''Excessive Nesting'',
             rule_description = ''Control structures should not be nested more than 4 levels deep'',
             rule_severity = RHigh,
             rule_pattern = None,
             rule_enabled = True \<rparr>,
           \<lparr> rule_id = ''hardcoded-sensitive-info'',
             rule_name = ''Hardcoded Sensitive Information'',
             rule_description = ''API keys, passwords, and secrets should not be hardcoded'',
             rule_severity = RCritical,
             rule_pattern = Some hardcoded_pattern,
             rule_enabled = True \<rparr> ] \<rparr>"

subsection \<open>Loading the rules\<close>

text \<open>
  The part of the file system \<open>loadRules\<close> touches: the content of the rules file if the file
  exists, whether its directory exists, and whether reads and writes are permitted. A
  refused operation throws and changes nothing.
\<close>

record filesystem =
  rules_file :: "string option"
  rules_dir :: bool
  readable :: bool
  writable :: bool

definition mkdirSync :: "filesystem \<Rightarrow> error + filesystem" where
  "mkdirSync fs = (if writable fs then Inr (fs\<lparr>rules_dir := True\<rparr>) else Inl (Error ''EACCES''))"

definition writeFileSync :: "filesystem \<Rightarrow> string \<Rightarrow> error + filesystem" where
  "writeFileSync fs content =
     (if writable fs \<and> rules_dir fs then Inr (fs\<lparr>rules_file := Some content\<rparr>)
      else Inl (Error ''EACCES''))"

definition readFileSync :: "filesystem \<Rightarrow> error + string" where
  "readFileSync fs =
     (case rules_file fs of
        None \<Rightarrow> Inl (Error ''ENOENT'')
      | Some content \<Rightarrow> if readable fs then Inr content else Inl (Error ''EACCES''))"

text \<open>
  \<open>createDefaultRules\<close>: the directory is made if it is missing, then the defaults are
  written. \<open>stringify\<close> is the host's \<open>JSON.stringify\<close>. The result is the error thrown, if
  any, and the file system as the call leaves it.
\<close>

definition createDefaultRules :: "(RuleSet \<Rightarrow> string) \<Rightarrow> filesystem \<Rightarrow> error option \<times> filesystem" where
  "createDefaultRules stringify fs =
     (case (if \<not> rules_dir fs then mkdirSync fs else Inr fs) of
        Inl e \<Rightarrow> (Some e, fs)
      | Inr fs1 \<Rightarrow>
          (case writeFileSync fs1 (stringify getDefaultRules) of
             Inl e \<Rightarrow> (Some e, fs1)
           | Inr fs2 \<Rightarrow> (None, fs2)))"

text \<open>
  The body of the \<open>try\<close> block of \<open>loadRules\<close>: the rule set parsed from the file, or the error
  thrown on the way. \<open>parse\<close> is the host's \<open>JSON.parse\<close>, whose result the source takes as a
  \<open>RuleSet\<close>.
\<close>

definition loadRules_try ::
  "(string \<Rightarrow> error + RuleSet) \<Rightarrow> (RuleSet \<Rightarrow> string) \<Rightarrow> filesystem \<Rightarrow> (error + RuleSet) \<times> filesystem" where
  "loadRules_try parse stringify fs =
     (case (if rules_file fs = None then createDefaultRules stringify fs else (None, fs)) of
        (Some e, fs1) \<Rightarrow> (Inl e, fs1)
      | (None, fs1) \<Rightarrow>
          (case readFileSync fs1 of
             Inl e \<Rightarrow> (Inl e, fs1)
           | Inr rulesContent \<Rightarrow> (parse rulesContent, fs1)))"

text \<open>\<open>loadRules\<close>: the \<open>catch\<close> block assigns the default rules. The result is the value of
  \<open>this.rules\<close> and the file system afterwards.\<close>

definition loadRules ::
  "(string \<Rightarrow> error + RuleSet) \<Rightarrow> (RuleSet \<Rightarrow> string) \<Rightarrow> filesystem \<Rightarrow> RuleSet \<times> filesystem" where
  "loadRules parse stringify fs =
     (case loadRules_try parse stringify fs of
        (Inl e, fs1) \<Rightarrow> (getDefaultRules, fs1)
      | (Inr loaded, fs1) \<Rightarrow> (loaded, fs1))"

subsection \<open>Applying the rules\<close>

text \<open>The objects \<open>applyRules\<close> pushes.\<close>

record RawFinding =
  f_ruleId :: string
  f_line :: int
  f_description :: string
  f_severity :: rule_severity
  f_match :: string

definition finding :: "Rule \<Rightarrow> nat \<Rightarrow> string \<Rightarrow> RawFinding" where
  "finding rule idx m =
     \<lparr> f_ruleId = rule_id rule, f_line = int idx + 1, f_description = rule_description rule,
       f_severity = rule_severity rule, f_match = m \<rparr>"

text \<open>
  \<open>while ((match = regex.exec(line)) !== null)\<close>: the texts of the matches, and the
  expression as the loop leaves it. The loop does not step over an empty match, so it may
  run forever: then the result is \<open>None\<close>.
\<close>

partial_function (option) exec_loop :: "regexp \<Rightarrow> string \<Rightarrow> string list \<Rightarrow> (string list \<times> regexp) option" where
  "exec_loop re line acc =
     (case regexp_exec re line of
        (None, re') \<Rightarrow> Some (acc, re')
      | (Some m, re') \<Rightarrow> exec_loop re' line (acc @ [snd m]))"

declare exec_loop.simps [code]

text \<open>The inner \<open>lines.forEach\<close> for one rule, from line index \<open>idx\<close> on.\<close>

fun rule_lines :: "Rule \<Rightarrow> regexp \<Rightarrow> string list \<Rightarrow> nat \<Rightarrow> RawFinding list option" where
  "rule_lines rule re [] idx = Some []"
| "rule_lines rule re (line # rest) idx =
     (case exec_loop re line [] of
        None \<Rightarrow> None
      | Some (ms, re') \<Rightarrow>
          (case rule_lines rule re' rest (Suc idx) of
             None \<Rightarrow> None
           | Some fs \<Rightarrow> Some (map (finding rule idx) ms @ fs)))"

text \<open>\<open>rule.enabled && rule.pattern\<close>: the rule is enabled and its pattern is a non-empty
  string.\<close>

definition pattern_backed :: "Rule \<Rightarrow> bool" where
  "pattern_backed rule =
     (rule_enabled rule \<and> (case rule_pattern rule of None \<Rightarrow> False | Some p \<Rightarrow> p \<noteq> []))"

text \<open>
  The outer \<open>forEach\<close> of \<open>applyRules\<close>. \<open>RegExp_new\<close> is the host's \<open>new RegExp(pattern, 'gi')\<close>,
  which throws a \<open>SyntaxError\<close> on a malformed pattern; nothing in \<open>applyRules\<close> catches it. The
  outcome is \<open>None\<close> when the call does not return, \<open>Some (Inl e)\<close> when it throws \<open>e\<close>, and
  \<open>Some (Inr issues)\<close> when it returns \<open>issues\<close>.
\<close>

fun apply_rule_list ::
  "(string \<Rightarrow> error + rx) \<Rightarrow> Rule list \<Rightarrow> string \<Rightarrow> (error + RawFinding list) option" where
  "apply_rule_list RegExp_new [] code = Some (Inr [])"
| "apply_rule_list RegExp_new (rule # rest) code =
     (if pattern_backed rule then
        (case RegExp_new (the (rule_pattern rule)) of
           Inl e \<Rightarrow> Some (Inl e)
         | Inr r \<Rightarrow>
             (case rule_lines rule (new_regexp r) (split_lines code) 0 of
                None \<Rightarrow> None
              | Some fs \<Rightarrow>
                  (case apply_rule_list RegExp_new rest code of
                     None \<Rightarrow> None
                   | Some (Inl e) \<Rightarrow> Some (Inl e)
                   | Some (Inr gs) \<Rightarrow> Some (Inr (fs @ gs)))))
      else apply_rule_list RegExp_new rest code)"

definition applyRules ::
  "(string \<Rightarrow> error + rx) \<Rightarrow> RuleSet \<Rightarrow> string \<Rightarrow> (error + RawFinding list) option" where
  "applyRules RegExp_new rs code = apply_rule_list RegExp_new (rules rs) code"

subsection \<open>The constructor of regular expressions on the patterns of the examples\<close>

text \<open>The two default patterns, compiled by hand.\<close>

definition naming_rx :: rx where
  "naming_rx =
     seqs [lits ''static'', Plus (Cls False [CSpace]), lits ''final'', Plus (Cls False [CSpace]),
           Plus (Cls False [CWord]), Plus (Cls False [CSpace]),
           Cls False [CRange CHR ''a'' CHR ''z''],
           Star (Cls False [CRange CHR ''A'' CHR ''Z'', CRange CHR ''a'' CHR ''z'',
                            CRange CHR ''0'' CHR ''9'', CChar CHR ''_''])]"

definition hardcoded_rx :: rx where
  "hardcoded_rx =
     seqs [alts [seqs [lits ''api'', Opt (Cls False [CChar CHR ''_'', CChar CHR ''-'']), lits ''key''],
                 lits ''apikey'', lits ''secret'', lits ''password'', lits ''pwd'', lits ''token''],
           spaces, lits ''='', spaces,
           Cls False [CChar CHR 0x22, CChar CHR 0x27],
           AtLeast 8 (Cls True [CChar CHR 0x22, CChar CHR 0x27]),
           Cls False [CChar CHR 0x22, CChar CHR 0x27]]"

text \<open>
  \<open>new RegExp(pattern, 'gi')\<close> on the patterns the examples use: the default patterns, the
  one-letter pattern \<open>a\<close>, and the pattern \<open>(\<close>, an unterminated group, on which the host
  throws a \<open>SyntaxError\<close>. The table says nothing about other patterns: they are marked by
  an error of their own, and no example uses them.
\<close>

definition example_RegExp :: "string \<Rightarrow> error + rx" where
  "example_RegExp p =
     (if p = naming_pattern then Inr naming_rx
      else if p = hardcoded_pattern then Inr hardcoded_rx
      else if p = ''a'' then Inr (Lit CHR ''a'')
      else if p = ''('' then Inl SyntaxError
      else Inl (Error ''pattern outside the table''))"

section \<open>Suggestions and their cache\<close>

text \<open>
  \<open>hashString\<close>. The bitwise operators of the host work on signed 32-bit integers:
  \<open>hash << 5\<close> and \<open>hash & hash\<close> wrap their results into that range, while the subtraction and
  the addition between them are exact. The result is the decimal notation of the absolute
  value of the final hash.
\<close>

definition to_int32 :: "int \<Rightarrow> int" where
  "to_int32 x = (x + 2147483648) mod 4294967296 - 2147483648"

definition hash_step :: "int \<Rightarrow> char \<Rightarrow> int" where
  "hash_step h c = to_int32 ((to_int32 (h * 32) - h) + of_char c)"

definition hashString :: "string \<Rightarrow> string" where
  "hashString str = show_int \<bar>foldl hash_step 0 str\<bar>"

definition getSuggestionKey :: "VulnerabilityIssue \<Rightarrow> string" where
  "getSuggestionKey v =
     fileName v @ '':'' @ show_int (lineNumber v) @ '':'' @ hashString (description v)"

record VulnerabilitySuggestion =
  s_id :: string
  issueDescription :: string
  s_suggestedFix :: string
  aiGeneratedCode :: string
  s_lineNumber :: int
  s_fileName :: string
  originalCode :: string

text \<open>\<open>s || d\<close> on strings: the empty string is falsy.\<close>

definition or_else :: "string \<Rightarrow> string \<Rightarrow> string" where
  "or_else s d = (if s = [] then d else s)"

definition nl :: string where
  "nl = [CHR 0x0A]"

text \<open>
  \<open>getCodeContext\<close>: the argument \<open>editor\<close> is the text of the active editor, if there is one.
  The function catches its own errors and always returns a text.
\<close>

definition getCodeContext :: "string option \<Rightarrow> VulnerabilityIssue \<Rightarrow> string" where
  "getCodeContext editor v =
     (case editor of
        None \<Rightarrow> ''Unable to retrieve code context''
      | Some content \<Rightarrow>
          (let lines = split_lines content; lineIndex = lineNumber v - 1
           in if 0 \<le> lineIndex \<and> lineIndex < int (length lines)
              then or_else (lines ! nat lineIndex) ''Unable to retrieve vulnerable line''
              else ''Unable to retrieve vulnerable line''))"

text \<open>
  \<open>s.replace(regex, replacement)\<close> with a regular expression without flags: the first match
  is replaced. The replacement is computed from the text that starts at the match.
\<close>

definition replace_first :: "rx \<Rightarrow> (string \<Rightarrow> string) \<Rightarrow> string \<Rightarrow> string" where
  "replace_first r replacement s =
     (case search_from False r None s 0 of
        None \<Rightarrow> s
      | Some (b, from_b, e) \<Rightarrow> take b s @ replacement from_b @ snd (e))"

definition statement_levels :: rx where
  "statement_levels = words [''info'', ''debug'', ''warn'', ''error'']"

text \<open>The group \<open>$1\<close> of \<open>/log\.(info|debug|warn|error)\([^)]*\)/\<close> in a match that starts the
  text \<open>from_b\<close>: the level name after \<open>log.\<close>.\<close>

definition log_level_group :: "string \<Rightarrow> string" where
  "log_level_group from_b =
     (case ends False statement_levels None (drop 4 from_b) of
        e # _ \<Rightarrow> matched_text (drop 4 from_b) (snd e)
      | [] \<Rightarrow> [])"

definition generateRuleBasedSuggestion :: "VulnerabilityIssue \<Rightarrow> string \<Rightarrow> string" where
  "generateRuleBasedSuggestion v orig =
     (if includes_str (toLowerCase (description v)) ''sql injection'' then
        replace_first
          (seqs [lits ''Statement'', Star AnyChar, lits ''executeQuery('',
                 Plus (Cls True [CChar CHR '')'']), lits '')''])
          (\<lambda>from_b. ''PreparedStatement pstmt = connection.prepareStatement(sql);'' @ nl
             @ ''// Set parameters using pstmt.setString(), pstmt.setInt(), etc.'' @ nl
             @ ''ResultSet rs = pstmt.executeQuery();'')
          orig
      else if includes_str (toLowerCase (description v)) ''hardcoded'' then
        ''// Use environment variables or configuration files'' @ nl
          @ ''String value = System.getenv('' @ quoted ''SECURE_VALUE'' @ '');''
      else if includes_str (toLowerCase (description v)) ''logging'' then
        replace_first
          (seqs [lits ''log.'', statement_levels, lits ''('', Star (Cls True [CChar CHR '')'']),
                 lits '')''])
          (\<lambda>from_b. ''log.'' @ log_level_group from_b @ ''(''
             @ quoted ''Sanitized log message without sensitive data'' @ '');'')
          orig
      else
        ''// Please review and fix the security issue:'' @ nl @ ''// '' @ suggestedFix v @ nl @ orig)"

text \<open>The suggestion built in the \<open>try\<close> block and the fallback built in the \<open>catch\<close> block.\<close>

definition new_suggestion :: "VulnerabilityIssue \<Rightarrow> string \<Rightarrow> string \<Rightarrow> VulnerabilitySuggestion" where
  "new_suggestion v orig code =
     \<lparr> s_id = getSuggestionKey v,
       issueDescription = description v,
       s_suggestedFix = or_else (suggestedFix v) ''No specific fix provided'',
       aiGeneratedCode = code,
       s_lineNumber = lineNumber v,
       s_fileName = or_else (fileName v) [],
       originalCode = orig \<rparr>"

definition fallbackSuggestion :: "VulnerabilityIssue \<Rightarrow> VulnerabilitySuggestion" where
  "fallbackSuggestion v =
     \<lparr> s_id = getSuggestionKey v,
       issueDescription = description v,
       s_suggestedFix = or_else (suggestedFix v) ''Manual review required'',
       aiGeneratedCode = ''// Suggestion unavailable'' @ nl @ ''// Please manually fix: '' @ suggestedFix v,
       s_lineNumber = lineNumber v,
       s_fileName = or_else (fileName v) [],
       originalCode = ''Unable to retrieve original code'' \<rparr>"

text \<open>The static \<open>suggestionCache\<close>.\<close>

type_synonym suggestion_cache = "string \<rightharpoonup> VulnerabilitySuggestion"

text \<open>
  The \<open>try\<close> and \<open>catch\<close> blocks in the loop of \<open>generateSuggestions\<close>. The argument \<open>attempt\<close> is what
  the \<open>try\<close> block computes for an issue before it builds the suggestion: the original code
  and the generated code, or the error thrown on the way.
\<close>

definition make_suggestion ::
  "(VulnerabilityIssue \<Rightarrow> error + string \<times> string) \<Rightarrow> VulnerabilityIssue \<Rightarrow> VulnerabilitySuggestion" where
  "make_suggestion attempt v =
     (case attempt v of
        Inr (orig, code) \<Rightarrow> new_suggestion v orig code
      | Inl err \<Rightarrow> fallbackSuggestion v)"

text \<open>The loop of \<open>generateSuggestions\<close>: a cached suggestion is returned as it is; a new one
  is returned and stored under the key of its issue.\<close>

fun generateSuggestions_with ::
  "(VulnerabilityIssue \<Rightarrow> error + string \<times> string) \<Rightarrow> suggestion_cache \<Rightarrow> VulnerabilityIssue list
     \<Rightarrow> VulnerabilitySuggestion list \<times> suggestion_cache" where
  "generateSuggestions_with attempt cache [] = ([], cache)"
| "generateSuggestions_with attempt cache (v # vs) =
     (case cache (getSuggestionKey v) of
        Some cached \<Rightarrow>
          (case generateSuggestions_with attempt cache vs of
             (suggestions, cache') \<Rightarrow> (cached # suggestions, cache'))
      | None \<Rightarrow>
          (case generateSuggestions_with attempt
                  (cache(getSuggestionKey v \<mapsto> make_suggestion attempt v)) vs of
             (suggestions, cache') \<Rightarrow> (make_suggestion attempt v # suggestions, cache')))"

text \<open>The \<open>try\<close> block as the source has it: the context of the issue in the editor, then the
  rule-based suggestion. Neither step throws.\<close>

definition source_attempt :: "string option \<Rightarrow> VulnerabilityIssue \<Rightarrow> error + string \<times> string" where
  "source_attempt editor v =
     Inr (getCodeContext editor v, generateRuleBasedSuggestion v (getCodeContext editor v))"

definition generateSuggestions ::
  "string option \<Rightarrow> suggestion_cache \<Rightarrow> VulnerabilityIssue list
     \<Rightarrow> VulnerabilitySuggestion list \<times> suggestion_cache" where
  "generateSuggestions editor cache vs = generateSuggestions_with (source_attempt editor) cache vs"

definition clearCache :: "suggestion_cache \<Rightarrow> suggestion_cache" where
  "clearCache cache = Map.empty"

definition getSuggestion :: "suggestion_cache \<Rightarrow> string \<Rightarrow> VulnerabilitySuggestion option" where
  "getSuggestion cache suggestionId = cache suggestionId"

section \<open>Example inputs\<close>

text \<open>A text of two lines: a constant declaration and a logging call.\<close>

definition two_line_example :: string where
  "two_line_example = ''static final int maxRetries = 3;'' @ nl @ ''log.info(a.token)''"

text \<open>A rule whose pattern is an unterminated group, and the default rules after it.\<close>

definition malformed_rule :: Rule where
  "malformed_rule =
     \<lparr> rule_id = ''broken'', rule_name = ''Broken pattern'',
       rule_description = ''A rule with a malformed pattern'', rule_severity = RLow,
       rule_pattern = Some ''('', rule_enabled = True \<rparr>"

definition rules_with_malformed :: RuleSet where
  "rules_with_malformed = \<lparr> version = ''1.0.0'', rules = malformed_rule # rules getDefaultRules \<rparr>"

text \<open>The line of the password example, and a text of three logging lines.\<close>

definition password_line :: string where
  "password_line = ''LOGGER.info('' @ quoted ''User password: '' @ '' + user.getPassword());''"

definition three_logging_lines :: string where
  "three_logging_lines = ''LOGGER.info(x)'' @ nl @ ''LOGGER.info(x)'' @ nl @ ''LOGGER.info(x)''"

text \<open>
  \<open>n\<close> consecutive calls of \<open>checkLoggingSensitivity\<close> with the same code on one checker, each
  call starting from the patterns as the call before left them: the issues of each call.
\<close>

fun consecutive_calls :: "nat \<Rightarrow> regexp list \<Rightarrow> string \<Rightarrow> VulnerabilityIssue list list" where
  "consecutive_calls 0 res code = []"
| "consecutive_calls (Suc n) res code =
     (case checkLoggingSensitivity res code of
        (issues, res') \<Rightarrow> issues # consecutive_calls n res' code)"

section \<open>Properties\<close>

subsection \<open>The default rule set\<close>

text \<open>
  Claim C5. The hard-coded default rule set holds, in this order, the constant-naming rule
  (severity medium, with a pattern), the excessive-nesting rule (severity high, no
  pattern) and the hardcoded-sensitive-information rule (severity critical, with a
  pattern that is not the empty string), and all three are enabled.
\<close>

theorem default_rules_content:
  "map (\<lambda>r. (rule_id r, rule_name r, rule_severity r, rule_enabled r)) (rules getDefaultRules) =
     [ (''naming-convention'', ''Constant Naming Convention'', RMedium, True),
       (''excessive-nesting'', ''Excessive Nesting'', RHigh, True),
       (''hardcoded-sensitive-info'', ''Hardcoded Sensitive Information'', RCritical, True) ]
   \<and> map rule_pattern (rules getDefaultRules) = [Some naming_pattern, None, Some hardcoded_pattern]
   \<and> naming_pattern \<noteq> [] \<and> hardcoded_pattern \<noteq> []
   \<and> map pattern_backed (rules getDefaultRules) = [True, False, True]"
  by (simp add: getDefaultRules_def naming_pattern_def hardcoded_pattern_def pattern_backed_def)

subsection \<open>Loading the rules\<close>

text \<open>
  Claim C4. Loading the rule store never fails. Whatever the state of the file system and
  whatever the parser does, \<open>loadRules\<close> returns a rule set: an error thrown in its \<open>try\<close> block
  gives the default rules. If the rules file is missing and can be written, it holds the
  serialised defaults afterwards, written before the file is read; if the file cannot be
  created, read or parsed, the result is the hard-coded default rule set.
\<close>

theorem loadRules_recovers:
  "(case fst (loadRules_try parse stringify fs) of
      Inl e \<Rightarrow> fst (loadRules parse stringify fs) = getDefaultRules
    | Inr loaded \<Rightarrow> fst (loadRules parse stringify fs) = loaded)
   \<and> fst (loadRules parse stringify fs) =
       (case rules_file fs of
          None \<Rightarrow>
            (if writable fs \<and> readable fs
             then (case parse (stringify getDefaultRules) of
                     Inl e \<Rightarrow> getDefaultRules | Inr loaded \<Rightarrow> loaded)
             else getDefaultRules)
        | Some content \<Rightarrow>
            (if readable fs
             then (case parse content of Inl e \<Rightarrow> getDefaultRules | Inr loaded \<Rightarrow> loaded)
             else getDefaultRules))
   \<and> rules_file (snd (loadRules parse stringify fs)) =
       (case rules_file fs of
          None \<Rightarrow> if writable fs then Some (stringify getDefaultRules) else None
        | Some content \<Rightarrow> Some content)"
  by (auto simp: loadRules_def loadRules_try_def createDefaultRules_def mkdirSync_def
        writeFileSync_def readFileSync_def split: option.splits sum.splits prod.splits)

text \<open>
  The theorem at a file system without a rules file, where the parser rejects what was
  written: the file is created from the defaults, and the defaults are returned.
\<close>

theorem loadRules_recovers_witness:
  "fst (loadRules (\<lambda>content. Inl SyntaxError) (\<lambda>rs. ''{}'')
          \<lparr>rules_file = None, rules_dir = False, readable = True, writable = True\<rparr>)
     = getDefaultRules
   \<and> rules_file (snd (loadRules (\<lambda>content. Inl SyntaxError) (\<lambda>rs. ''{}'')
          \<lparr>rules_file = None, rules_dir = False, readable = True, writable = True\<rparr>))
     = Some ''{}''"
  using loadRules_recovers [of "\<lambda>content. Inl SyntaxError" "\<lambda>rs. ''{}''"
          "\<lparr>rules_file = None, rules_dir = False, readable = True, writable = True\<rparr>"]
  by simp

subsection \<open>The suggestion cache\<close>

text \<open>
  Claim C9. After \<open>clearCache\<close>, \<open>getSuggestion\<close> finds no suggestion under an id that was
  cached before.
\<close>

theorem cleared_cache_has_no_suggestion:
  "cache suggestionId = Some s \<Longrightarrow> getSuggestion (clearCache cache) suggestionId = None"
  by (simp add: getSuggestion_def clearCache_def)

text \<open>The theorem at the cache that one call of \<open>generateSuggestions\<close> fills.\<close>

theorem cleared_cache_has_no_suggestion_witness:
  "snd (generateSuggestions None Map.empty [keyword_issue 1 ''token''])
       (getSuggestionKey (keyword_issue 1 ''token''))
     = Some (new_suggestion (keyword_issue 1 ''token'')
               (getCodeContext None (keyword_issue 1 ''token''))
               (generateRuleBasedSuggestion (keyword_issue 1 ''token'')
                  (getCodeContext None (keyword_issue 1 ''token''))))
   \<and> getSuggestion (clearCache (snd (generateSuggestions None Map.empty [keyword_issue 1 ''token''])))
       (getSuggestionKey (keyword_issue 1 ''token'')) = None"
proof -
  have cached: "snd (generateSuggestions None Map.empty [keyword_issue 1 ''token''])
       (getSuggestionKey (keyword_issue 1 ''token''))
     = Some (new_suggestion (keyword_issue 1 ''token'')
               (getCodeContext None (keyword_issue 1 ''token''))
               (generateRuleBasedSuggestion (keyword_issue 1 ''token'')
                  (getCodeContext None (keyword_issue 1 ''token''))))"
    by (simp add: generateSuggestions_def source_attempt_def make_suggestion_def)
  from cached
    cleared_cache_has_no_suggestion
      [of "snd (generateSuggestions None Map.empty [keyword_issue 1 ''token''])"
          "getSuggestionKey (keyword_issue 1 ''token'')"]
  show ?thesis by simp
qed

subsection \<open>The sensitive-logging detector on the password example\<close>

text \<open>
  Claim C2, at the states where it fails. On the single line
  \<open>LOGGER.info("User password: " + user.getPassword());\<close> a newly constructed checker reports
  exactly one issue: on line 1, of severity high, from the Credentials pattern, with a
  description that names the password. The same holds for the second and the third call
  on that checker, but the fourth call reports nothing: the logging tests of the earlier
  calls have left \<open>lastIndex\<close> 12 on both patterns that match \<open>LOGGER.info(\<close>. The first call on
  a checker that has scanned a text of three logging lines before reports nothing either.
\<close>

theorem password_example_lost_on_reused_checker:
  "consecutive_calls 4 loggerPatterns password_line
     = [ [ \<lparr> fileName = [],
             lineNumber = 1,
             description = ''Password/secret data is being logged - security risk: ''
               @ quoted ''.getPassword()'',
             severity = High,
             message = ''Sensitive data is been exposed in log'',
             suggestedFix = generateSuggestedFix ''Credentials'' ''.getPassword()'' \<rparr> ],
         [ sensitive_issue (sensitiveMethodPatterns ! 2) 1 ''.getPassword()'' ],
         [ sensitive_issue (sensitiveMethodPatterns ! 2) 1 ''.getPassword()'' ],
         [] ]
   \<and> includes_str
         (toLowerCase (''Password/secret data is being logged - security risk: ''
            @ quoted ''.getPassword()''))
         ''password''
   \<and> map lastIndex (snd (checkLoggingSensitivity loggerPatterns three_logging_lines))
     = [12, 0, 12, 0, 0, 0]
   \<and> fst (checkLoggingSensitivity
            (snd (checkLoggingSensitivity loggerPatterns three_logging_lines)) password_line)
     = []"
proof -
  have "consecutive_calls 4 loggerPatterns password_line
     = [ [ \<lparr> fileName = [],
             lineNumber = 1,
             description = ''Password/secret data is being logged - security risk: ''
               @ quoted ''.getPassword()'',
             severity = High,
             message = ''Sensitive data is been exposed in log'',
             suggestedFix = generateSuggestedFix ''Credentials'' ''.getPassword()'' \<rparr> ],
         [ sensitive_issue (sensitiveMethodPatterns ! 2) 1 ''.getPassword()'' ],
         [ sensitive_issue (sensitiveMethodPatterns ! 2) 1 ''.getPassword()'' ],
         [] ]"
    by code_simp
  moreover have "includes_str
         (toLowerCase (''Password/secret data is being logged - security risk: ''
            @ quoted ''.getPassword()''))
         ''password''"
    by code_simp
  moreover have "map lastIndex (snd (checkLoggingSensitivity loggerPatterns three_logging_lines))
     = [12, 0, 12, 0, 0, 0]"
    by code_simp
  moreover have "fst (checkLoggingSensitivity
            (snd (checkLoggingSensitivity loggerPatterns three_logging_lines)) password_line)
     = []"
    by code_simp
  ultimately show ?thesis by blast
qed

subsection \<open>The analyzer without its model\<close>

lemma uninitialized_falls_back:
  "\<not> isInitialized a \<or> embeddingPipeline a = None
     \<Longrightarrow> analyzeLoggingStatements a code = fallbackKeywordAnalysis a code"
  by (simp add: analyzeLoggingStatements_def)

lemma fallback_keeps_backend:
  "isInitialized (snd (fallbackKeywordAnalysis a code)) = isInitialized a
   \<and> embeddingPipeline (snd (fallbackKeywordAnalysis a code)) = embeddingPipeline a"
  by (simp add: fallbackKeywordAnalysis_def case_prod_beta)

lemma new_analyzer_uninitialized: "\<not> isInitialized new_analyzer"
  by (simp add: new_analyzer_def)

subsection \<open>Repeated calls on one detector\<close>

text \<open>
  Claim C1, at an input where it fails. The logging test calls \<open>test\<close> on regular expressions
  with the flag \<open>g\<close>, so a successful test leaves \<open>lastIndex\<close> behind the match and the next
  test of the same object starts there. On the line
  \<open>System.out.println(user.getPassword());\<close> the first call of \<open>checkLoggingSensitivity\<close> on a new
  checker reports the password access, and the second call on the same checker reports
  nothing. On the line \<open>log.info(token)\<close> the first call of \<open>analyzeLoggingStatements\<close> on a new
  analyzer, whose model has not loaded, reports the keyword through the keyword fallback,
  and the second call reports nothing.
\<close>

theorem second_call_loses_issues:
  "fst (checkLoggingSensitivity loggerPatterns ''System.out.println(user.getPassword());'')
     = [sensitive_issue (sensitiveMethodPatterns ! 2) 1 ''.getPassword()'']
   \<and> fst (checkLoggingSensitivity
            (snd (checkLoggingSensitivity loggerPatterns ''System.out.println(user.getPassword());''))
            ''System.out.println(user.getPassword());'')
     = []
   \<and> fst (analyzeLoggingStatements new_analyzer ''log.info(token)'') = [keyword_issue 1 ''token'']
   \<and> fst (analyzeLoggingStatements (snd (analyzeLoggingStatements new_analyzer ''log.info(token)''))
            ''log.info(token)'')
     = []"
proof -
  have "fst (checkLoggingSensitivity loggerPatterns ''System.out.println(user.getPassword());'')
     = [sensitive_issue (sensitiveMethodPatterns ! 2) 1 ''.getPassword()'']"
    by code_simp
  moreover have "fst (checkLoggingSensitivity
            (snd (checkLoggingSensitivity loggerPatterns ''System.out.println(user.getPassword());''))
            ''System.out.println(user.getPassword());'')
     = []"
    by code_simp
  moreover have first: "analyzeLoggingStatements new_analyzer ''log.info(token)''
      = fallbackKeywordAnalysis new_analyzer ''log.info(token)''"
    by (simp add: uninitialized_falls_back new_analyzer_uninitialized)
  moreover have "analyzeLoggingStatements
        (snd (fallbackKeywordAnalysis new_analyzer ''log.info(token)'')) ''log.info(token)''
      = fallbackKeywordAnalysis
          (snd (fallbackKeywordAnalysis new_analyzer ''log.info(token)'')) ''log.info(token)''"
    by (simp add: uninitialized_falls_back fallback_keeps_backend new_analyzer_uninitialized)
  moreover have "fst (fallbackKeywordAnalysis new_analyzer ''log.info(token)'')
     = [keyword_issue 1 ''token'']"
    by code_simp
  moreover have "fst (fallbackKeywordAnalysis
            (snd (fallbackKeywordAnalysis new_analyzer ''log.info(token)'')) ''log.info(token)'')
     = []"
    by code_simp
  ultimately show ?thesis by simp
qed

text \<open>So on either detector the second call does not return the issues of the first.\<close>

theorem second_call_loses_issues_witness:
  "fst (checkLoggingSensitivity
          (snd (checkLoggingSensitivity loggerPatterns ''System.out.println(user.getPassword());''))
          ''System.out.println(user.getPassword());'')
     \<noteq> fst (checkLoggingSensitivity loggerPatterns ''System.out.println(user.getPassword());'')
   \<and> fst (analyzeLoggingStatements (snd (analyzeLoggingStatements new_analyzer ''log.info(token)''))
            ''log.info(token)'')
     \<noteq> fst (analyzeLoggingStatements new_analyzer ''log.info(token)'')"
  using second_call_loses_issues by simp

subsection \<open>Severities of the keyword fallback\<close>

lemma scan_lines_all:
  assumes "\<And>line n. 1 \<le> n \<Longrightarrow> list_all P (analyse line n)"
  shows "list_all P (fst (scan_lines analyse res lines idx))"
proof (induction lines arbitrary: res idx)
  case Nil
  show ?case by simp
next
  case (Cons line rest)
  obtain hasLogging res' where t: "some_test res line = (hasLogging, res')"
    by (cases "some_test res line")
  have "list_all P (fst (scan_lines analyse res' rest (Suc idx)))"
    by (rule Cons.IH)
  moreover have "list_all P (analyse line (int idx + 1))"
    by (rule assms) simp
  ultimately show ?case
    using t by (simp add: case_prod_beta)
qed

lemma fallbackLineAnalysis_keyword_issues:
  "list_all (\<lambda>i. \<exists>m. i = keyword_issue n m) (fallbackLineAnalysis line n)"
  by (auto simp: fallbackLineAnalysis_def list_all_iff)

text \<open>
  Claim C6, as the code has it. While the model is not initialised, \<open>analyzeLoggingStatements\<close>
  is the keyword fallback, and every issue of the fallback has severity medium, whatever
  the category of its keyword.
\<close>

theorem uninitialized_is_keyword_matching_medium:
  assumes "\<not> isInitialized a \<or> embeddingPipeline a = None"
  shows "analyzeLoggingStatements a code = fallbackKeywordAnalysis a code
         \<and> list_all (\<lambda>i. severity i = Medium) (fst (analyzeLoggingStatements a code))"
proof -
  have "list_all (\<lambda>i. severity i = Medium)
          (fst (scan_lines fallbackLineAnalysis (logging_patterns a) (split_lines code) 0))"
  proof (rule scan_lines_all)
    fix line and n :: int
    show "list_all (\<lambda>i. severity i = Medium) (fallbackLineAnalysis line n)"
      using fallbackLineAnalysis_keyword_issues [of n line]
      by (auto simp: list_all_iff keyword_issue_def)
  qed
  then have "list_all (\<lambda>i. severity i = Medium) (fst (fallbackKeywordAnalysis a code))"
    by (simp add: fallbackKeywordAnalysis_def case_prod_beta)
  with uninitialized_falls_back [OF assms, of code] show ?thesis by simp
qed

theorem uninitialized_is_keyword_matching_medium_witness:
  "analyzeLoggingStatements new_analyzer ''log.info(password)''
     = fallbackKeywordAnalysis new_analyzer ''log.info(password)''
   \<and> list_all (\<lambda>i. severity i = Medium)
        (fst (analyzeLoggingStatements new_analyzer ''log.info(password)''))
   \<and> fst (fallbackKeywordAnalysis new_analyzer ''log.info(password)'')
        = [keyword_issue 1 ''password'']"
proof -
  have "fst (fallbackKeywordAnalysis new_analyzer ''log.info(password)'')
        = [keyword_issue 1 ''password'']"
    by code_simp
  with uninitialized_is_keyword_matching_medium [of new_analyzer "''log.info(password)''"]
  show ?thesis by (simp add: new_analyzer_uninitialized keyword_issue_def)
qed

text \<open>
  The claim as stated fails on the line \<open>log.info(password)\<close>: the keyword \<open>password\<close> belongs
  to the category \<open>authentication\<close>, which the analyzer's own severity table and the
  Credentials patterns of the sensitive-logging catalog rate high, and the issue of the
  fallback has severity medium.
\<close>

theorem fallback_severity_counterexample:
  "map severity (fst (analyzeLoggingStatements new_analyzer ''log.info(password)'')) = [Medium]
   \<and> map description (fst (analyzeLoggingStatements new_analyzer ''log.info(password)''))
       = [''Potential sensitive keyword detected in logging: '' @ quoted ''password''
            @ '' (keyword matching)'']
   \<and> ''password'' \<in> set (the (map_of SENSITIVE_KEYWORDS ''authentication''))
   \<and> getSeverityByCategory ''authentication'' = High
   \<and> map sp_severity (filter (\<lambda>p. sp_category p = ''Credentials'') sensitiveMethodPatterns)
       = [High, High]"
proof -
  have "analyzeLoggingStatements new_analyzer ''log.info(password)''
      = fallbackKeywordAnalysis new_analyzer ''log.info(password)''"
    by (simp add: uninitialized_falls_back new_analyzer_uninitialized)
  moreover have "fst (fallbackKeywordAnalysis new_analyzer ''log.info(password)'')
      = [keyword_issue 1 ''password'']"
    by code_simp
  moreover have "''password'' \<in> set (the (map_of SENSITIVE_KEYWORDS ''authentication''))"
    by (simp add: SENSITIVE_KEYWORDS_def)
  moreover have "getSeverityByCategory ''authentication'' = High"
    by (simp add: getSeverityByCategory_def)
  moreover have "map sp_severity
      (filter (\<lambda>p. sp_category p = ''Credentials'') sensitiveMethodPatterns) = [High, High]"
    by (simp add: sensitiveMethodPatterns_def)
  ultimately show ?thesis by (simp add: keyword_issue_def)
qed

subsection \<open>Line numbers and descriptions of the issues\<close>

lemma checkSensitivePatterns_issues:
  "list_all (\<lambda>i. lineNumber i = n \<and> description i \<noteq> []) (checkSensitivePatterns line n)"
  by (auto simp: checkSensitivePatterns_def list_all_iff sensitive_issue_def)

lemma fallbackLineAnalysis_issues:
  "list_all (\<lambda>i. lineNumber i = n \<and> description i \<noteq> []) (fallbackLineAnalysis line n)"
  by (auto simp: fallbackLineAnalysis_def list_all_iff keyword_issue_def)

lemma analyzeLoggingLine_issues:
  "list_all (\<lambda>i. lineNumber i = n \<and> description i \<noteq> []) (analyzeLoggingLine a line n)"
  by (auto simp: analyzeLoggingLine_def list_all_iff semantic_issue_def)

lemma list_all_weaken: "list_all P xs \<Longrightarrow> (\<And>x. P x \<Longrightarrow> Q x) \<Longrightarrow> list_all Q xs"
  by (auto simp: list_all_iff)

lemma rule_lines_findings:
  "rule_lines rule re lines idx = Some fs
     \<Longrightarrow> list_all (\<lambda>f. 1 \<le> f_line f \<and> f_ruleId f = rule_id rule
                          \<and> f_description f = rule_description rule) fs"
proof (induction lines arbitrary: re idx fs)
  case Nil
  then show ?case by simp
next
  case (Cons line rest)
  from Cons.prems obtain ms re' gs where
    "rule_lines rule re' rest (Suc idx) = Some gs" and "fs = map (finding rule idx) ms @ gs"
    by (auto split: option.splits)
  with Cons.IH [of re' "Suc idx" gs] show ?case
    by (auto simp: list_all_iff finding_def)
qed

lemma apply_rule_list_findings:
  "apply_rule_list RegExp_new rs code = Some (Inr fs)
     \<Longrightarrow> list_all (\<lambda>f. 1 \<le> f_line f
            \<and> (\<exists>rule \<in> set rs. pattern_backed rule \<and> f_ruleId f = rule_id rule
                                  \<and> f_description f = rule_description rule)) fs"
proof (induction rs arbitrary: fs)
  case Nil
  then show ?case by simp
next
  case (Cons rule rest)
  show ?case
  proof (cases "pattern_backed rule")
    case False
    with Cons.prems have "apply_rule_list RegExp_new rest code = Some (Inr fs)" by simp
    from Cons.IH [OF this] show ?thesis by (auto simp: list_all_iff)
  next
    case True
    with Cons.prems obtain r hs gs where
      h: "rule_lines rule (new_regexp r) (split_lines code) 0 = Some hs"
      and g: "apply_rule_list RegExp_new rest code = Some (Inr gs)" and fs: "fs = hs @ gs"
      by (auto split: sum.splits option.splits)
    from rule_lines_findings [OF h] Cons.IH [OF g] True fs show ?thesis
      by (auto simp: list_all_iff)
  qed
qed

text \<open>
  Claim C10, as the code has it. Every issue of the sensitive-logging detector and of the
  semantic analyzer (with or without its model) has a line number of at least 1 and a
  description that is not empty. Every finding that \<open>applyRules\<close> returns has a line of at
  least 1 and carries the description of an enabled, pattern-backed rule of the rule set:
  its description is not empty when no rule of the set has an empty description.
\<close>

theorem issues_have_line_and_description:
  "list_all (\<lambda>i. 1 \<le> lineNumber i \<and> description i \<noteq> []) (fst (checkLoggingSensitivity res code))
   \<and> list_all (\<lambda>i. 1 \<le> lineNumber i \<and> description i \<noteq> []) (fst (analyzeLoggingStatements a code))
   \<and> (applyRules RegExp_new rs code = Some (Inr fs) \<longrightarrow>
        list_all (\<lambda>f. 1 \<le> f_line f
           \<and> (\<exists>rule \<in> set (rules rs). pattern_backed rule \<and> f_ruleId f = rule_id rule
                 \<and> f_description f = rule_description rule)) fs)
   \<and> (applyRules RegExp_new rs code = Some (Inr fs)
        \<and> list_all (\<lambda>rule. rule_description rule \<noteq> []) (rules rs) \<longrightarrow>
        list_all (\<lambda>f. 1 \<le> f_line f \<and> f_description f \<noteq> []) fs)"
proof -
  let ?ok = "\<lambda>i. 1 \<le> lineNumber i \<and> description i \<noteq> []"
  have checker: "list_all ?ok (fst (scan_lines checkSensitivePatterns res ls idx))" for res ls idx
    by (rule scan_lines_all) (rule list_all_weaken [OF checkSensitivePatterns_issues], simp)
  have fallback: "list_all ?ok (fst (scan_lines fallbackLineAnalysis res ls idx))" for res ls idx
    by (rule scan_lines_all) (rule list_all_weaken [OF fallbackLineAnalysis_issues], simp)
  have semantic: "list_all ?ok (fst (scan_lines (analyzeLoggingLine a) res ls idx))" for res ls idx
    by (rule scan_lines_all) (rule list_all_weaken [OF analyzeLoggingLine_issues], simp)
  have 1: "list_all ?ok (fst (checkLoggingSensitivity res code))"
    using checker by (simp add: checkLoggingSensitivity_def)
  have 2: "list_all ?ok (fst (analyzeLoggingStatements a code))"
    using fallback semantic
    by (simp add: analyzeLoggingStatements_def fallbackKeywordAnalysis_def case_prod_beta)
  have 3: "list_all (\<lambda>f. 1 \<le> f_line f
           \<and> (\<exists>rule \<in> set (rules rs). pattern_backed rule \<and> f_ruleId f = rule_id rule
                 \<and> f_description f = rule_description rule)) fs"
    if "applyRules RegExp_new rs code = Some (Inr fs)"
    using that apply_rule_list_findings [of RegExp_new "rules rs" code fs]
    by (simp add: applyRules_def)
  have 4: "list_all (\<lambda>f. 1 \<le> f_line f \<and> f_description f \<noteq> []) fs"
    if "applyRules RegExp_new rs code = Some (Inr fs)"
      and "list_all (\<lambda>rule. rule_description rule \<noteq> []) (rules rs)"
    using 3 [OF that(1)] that(2) by (auto simp: list_all_iff)
  from 1 2 3 4 show ?thesis by blast
qed

text \<open>
  The theorem on a text of two lines, a constant declaration and a logging call, for the
  two detectors and for the default rules.
\<close>

theorem issues_have_line_and_description_witness:
  "fst (checkLoggingSensitivity loggerPatterns two_line_example)
     = [sensitive_issue (sensitiveMethodPatterns ! 3) 2 ''.token'']
   \<and> list_all (\<lambda>i. 1 \<le> lineNumber i \<and> description i \<noteq> [])
        (fst (checkLoggingSensitivity loggerPatterns two_line_example))
   \<and> fst (analyzeLoggingStatements new_analyzer two_line_example) = [keyword_issue 2 ''token'']
   \<and> list_all (\<lambda>i. 1 \<le> lineNumber i \<and> description i \<noteq> [])
        (fst (analyzeLoggingStatements new_analyzer two_line_example))
   \<and> applyRules example_RegExp getDefaultRules two_line_example
     = Some (Inr [finding (rules getDefaultRules ! 0) 0 ''static final int maxRetries''])
   \<and> list_all (\<lambda>rule. rule_description rule \<noteq> []) (rules getDefaultRules)
   \<and> list_all (\<lambda>f. 1 \<le> f_line f \<and> f_description f \<noteq> [])
        [finding (rules getDefaultRules ! 0) 0 ''static final int maxRetries'']"
proof -
  have a: "fst (checkLoggingSensitivity loggerPatterns two_line_example)
     = [sensitive_issue (sensitiveMethodPatterns ! 3) 2 ''.token'']"
    by code_simp
  have "analyzeLoggingStatements new_analyzer two_line_example
     = fallbackKeywordAnalysis new_analyzer two_line_example"
    by (simp add: uninitialized_falls_back new_analyzer_uninitialized)
  moreover have "fst (fallbackKeywordAnalysis new_analyzer two_line_example)
     = [keyword_issue 2 ''token'']"
    by code_simp
  ultimately have b: "fst (analyzeLoggingStatements new_analyzer two_line_example)
     = [keyword_issue 2 ''token'']"
    by simp
  have c: "applyRules example_RegExp getDefaultRules two_line_example
     = Some (Inr [finding (rules getDefaultRules ! 0) 0 ''static final int maxRetries''])"
    by code_simp
  have d: "list_all (\<lambda>rule. rule_description rule \<noteq> []) (rules getDefaultRules)"
    by (simp add: getDefaultRules_def)
  from a b c d
    issues_have_line_and_description
      [of loggerPatterns two_line_example new_analyzer example_RegExp getDefaultRules
          "[finding (rules getDefaultRules ! 0) 0 ''static final int maxRetries'']"]
  show ?thesis by simp
qed

text \<open>
  The claim as stated fails for the pattern rules: a rule whose description is the empty
  string, as a rules file may hold it, gives a finding whose description is empty.
\<close>

theorem empty_description_counterexample:
  "applyRules example_RegExp
     \<lparr> version = ''1.0.0'',
       rules = [ \<lparr> rule_id = ''letter-a'', rule_name = ''Letter a'', rule_description = [],
                   rule_severity = RLow, rule_pattern = Some ''a'', rule_enabled = True \<rparr> ] \<rparr>
     ''a''
   = Some (Inr [ \<lparr> f_ruleId = ''letter-a'', f_line = 1, f_description = [], f_severity = RLow,
                    f_match = ''a'' \<rparr> ])"
  by code_simp

subsection \<open>Malformed patterns\<close>

lemma apply_rule_list_append:
  "apply_rule_list RegExp_new (xs @ ys) code =
     (case apply_rule_list RegExp_new xs code of
        None \<Rightarrow> None
      | Some (Inl e) \<Rightarrow> Some (Inl e)
      | Some (Inr fs) \<Rightarrow>
          (case apply_rule_list RegExp_new ys code of
             None \<Rightarrow> None
           | Some (Inl e) \<Rightarrow> Some (Inl e)
           | Some (Inr gs) \<Rightarrow> Some (Inr (fs @ gs))))"
  by (induction xs) (auto split: option.splits sum.splits)

lemma apply_rule_list_skips:
  "apply_rule_list RegExp_new (filter pattern_backed rs) code = apply_rule_list RegExp_new rs code"
  by (induction rs) (auto split: option.splits sum.splits)

lemma malformed_never_returns:
  "rule \<in> set rs \<Longrightarrow> pattern_backed rule \<Longrightarrow> RegExp_new (the (rule_pattern rule)) = Inl e
     \<Longrightarrow> apply_rule_list RegExp_new rs code \<noteq> Some (Inr fs)"
  by (induction rs arbitrary: fs) (auto split: option.splits sum.splits)


subsection \<open>The match loop ends on patterns without empty matches\<close>

lemma one_char_shorter: "e \<in> set (one_char P cs) \<Longrightarrow> length (snd e) < length cs"
  by (cases cs) (auto split: if_splits)

lemma ends_length_le: "e \<in> set (ends ic r p cs) \<Longrightarrow> length (snd e) \<le> length cs"
proof (induction ic r p cs arbitrary: e rule: ends.induct)
  case (1 ic p cs)
  then show ?case by (simp add: ends.simps)
next
  case (2 ic c p cs)
  then show ?case using one_char_shorter [of e "chr_eq ic c" cs] by (simp add: ends.simps)
next
  case (3 ic p cs)
  then show ?case
    using one_char_shorter [of e "\<lambda>c. \<not> line_terminator c" cs] by (simp add: ends.simps)
next
  case (4 ic neg items p cs)
  then show ?case
    using one_char_shorter [of e "\<lambda>c. cls_has ic items c \<noteq> neg" cs] by (simp add: ends.simps)
next
  case (5 ic p cs)
  then show ?case by (simp add: ends.simps split: if_splits)
next
  case (6 ic r1 r2 p cs)
  from "6.prems" obtain k where k: "k \<in> set (ends ic r1 p cs)" "e \<in> set (ends ic r2 (fst k) (snd k))"
    by (auto simp: ends.simps(6))
  from "6.IH"(1) [OF k(1)] "6.IH"(2) [OF k(1) k(2)] show ?case by simp
next
  case (7 ic r1 r2 p cs)
  from "7.prems" have "e \<in> set (ends ic r1 p cs) \<or> e \<in> set (ends ic r2 p cs)"
    by (simp add: ends.simps(7))
  then show ?case
  proof
    assume "e \<in> set (ends ic r1 p cs)"
    then show ?thesis by (rule "7.IH"(1))
  next
    assume "e \<in> set (ends ic r2 p cs)"
    then show ?thesis by (rule "7.IH"(2))
  qed
next
  case (8 ic r p cs)
  from "8.prems" have "e = (p, cs) \<or> (\<exists>k \<in> set (ends ic r p cs). length (snd k) < length cs
      \<and> e \<in> set (ends ic (Star r) (fst k) (snd k)))"
    by (auto simp: ends.simps(8) [of ic r p cs] split: if_splits)
  then show ?case
  proof
    assume "e = (p, cs)"
    then show ?thesis by simp
  next
    assume "\<exists>k \<in> set (ends ic r p cs). length (snd k) < length cs
      \<and> e \<in> set (ends ic (Star r) (fst k) (snd k))"
    then obtain k where k: "k \<in> set (ends ic r p cs)" "length (snd k) < length cs"
      "e \<in> set (ends ic (Star r) (fst k) (snd k))" by blast
    from "8.IH"(2) [OF k(1) k(2) k(3)] k(2) show ?thesis by simp
  qed
next
  case (9 ic r p cs)
  from "9.prems" obtain k where k: "k \<in> set (ends ic r p cs)"
      "e \<in> set (ends ic (Star r) (fst k) (snd k))"
    by (auto simp: ends.simps(9))
  from "9.IH"(1) [OF k(1)] "9.IH"(2) [OF k(1) k(2)] show ?case by simp
next
  case (10 ic r p cs)
  from "10.prems" have "e \<in> set (ends ic r p cs) \<or> e = (p, cs)"
    by (auto simp: ends.simps(10))
  then show ?case
  proof
    assume "e \<in> set (ends ic r p cs)"
    then show ?thesis by (rule "10.IH")
  next
    assume "e = (p, cs)"
    then show ?thesis by simp
  qed
next
  case (11 ic r p cs)
  then show ?case by (simp add: ends.simps(11))
next
  case (12 ic n r p cs)
  from "12.prems" obtain k where k: "k \<in> set (ends ic r p cs)"
      "e \<in> set (ends ic (AtLeast n r) (fst k) (snd k))"
    by (auto simp: ends.simps(12))
  from "12.IH"(1) [OF k(1)] "12.IH"(2) [OF k(1) k(2)] show ?case by simp
qed

lemma consuming_shorter:
  "consuming r \<Longrightarrow> e \<in> set (ends ic r p cs) \<Longrightarrow> length (snd e) < length cs"
proof (induction r arbitrary: e p cs)
  case (Lit c)
  then show ?case using one_char_shorter [of e "chr_eq ic c" cs] by (simp add: ends.simps)
next
  case AnyChar
  then show ?case
    using one_char_shorter [of e "\<lambda>c. \<not> line_terminator c" cs] by (simp add: ends.simps)
next
  case (Cls neg items)
  then show ?case
    using one_char_shorter [of e "\<lambda>c. cls_has ic items c \<noteq> neg" cs] by (simp add: ends.simps)
next
  case (Seq r1 r2)
  from Seq.prems(2) obtain k where k: "k \<in> set (ends ic r1 p cs)"
      "e \<in> set (ends ic r2 (fst k) (snd k))"
    by (auto simp: ends.simps(6))
  from Seq.prems(1) have "consuming r1 \<or> consuming r2" by simp
  then show ?case
  proof
    assume "consuming r1"
    from Seq.IH(1) [OF this k(1)] ends_length_le [OF k(2)] show ?thesis by simp
  next
    assume "consuming r2"
    from Seq.IH(2) [OF this k(2)] ends_length_le [OF k(1)] show ?thesis by simp
  qed
next
  case (Alt r1 r2)
  from Alt.prems(2) have "e \<in> set (ends ic r1 p cs) \<or> e \<in> set (ends ic r2 p cs)"
    by (simp add: ends.simps(7))
  then show ?case
  proof
    assume "e \<in> set (ends ic r1 p cs)"
    moreover from Alt.prems(1) have "consuming r1" by simp
    ultimately show ?thesis by (rule Alt.IH(1) [rotated])
  next
    assume "e \<in> set (ends ic r2 p cs)"
    moreover from Alt.prems(1) have "consuming r2" by simp
    ultimately show ?thesis by (rule Alt.IH(2) [rotated])
  qed
next
  case (Plus r)
  from Plus.prems(2) obtain k where k: "k \<in> set (ends ic r p cs)"
      "e \<in> set (ends ic (Star r) (fst k) (snd k))"
    by (auto simp: ends.simps(9))
  from Plus.prems(1) have "consuming r" by simp
  from Plus.IH [OF this k(1)] ends_length_le [OF k(2)] show ?case by simp
next
  case (AtLeast n r)
  from AtLeast.prems(1) obtain m where n: "n = Suc m" and c: "consuming r"
    by (cases n) auto
  from AtLeast.prems(2) n obtain k where k: "k \<in> set (ends ic r p cs)"
      "e \<in> set (ends ic (AtLeast m r) (fst k) (snd k))"
    by (auto simp: ends.simps(12))
  from AtLeast.IH [OF c k(1)] ends_length_le [OF k(2)] show ?case by simp
qed simp_all

lemma advance_length: "advance n p s = Some (q, cs) \<Longrightarrow> n + length cs = length s"
  by (induction n p s rule: advance.induct) auto

lemma search_from_found:
  "search_from ic r p cs i = Some (b, from_b, e)
     \<Longrightarrow> b + length from_b = i + length cs \<and> (\<exists>q. e \<in> set (ends ic r q from_b))"
proof (induction cs arbitrary: p i)
  case Nil
  then obtain xs where "ends ic r p [] = e # xs" "b = i" "from_b = []"
    by (auto split: list.splits)
  moreover from this have "e \<in> set (ends ic r p [])" by simp
  ultimately show ?case by blast
next
  case (Cons c cs)
  show ?case
  proof (cases "ends ic r p (c # cs)")
    case Nil
    with Cons.prems have "search_from ic r (Some c) cs (Suc i) = Some (b, from_b, e)" by simp
    from Cons.IH [OF this] show ?thesis by simp
  next
    case (Cons x xs)
    with Cons.prems have eq: "b = i" "from_b = c # cs" "e = x" by auto
    with Cons have "e \<in> set (ends ic r p from_b)" by simp
    with eq show ?thesis by auto
  qed
qed

lemma regexp_exec_progress:
  assumes "consuming (pat re)" and "regexp_exec re line = (Some m, re')"
  shows "lastIndex re < lastIndex re' \<and> lastIndex re' \<le> length line \<and> pat re' = pat re"
proof -
  from assms(2) obtain p cs b from_b e where
    adv: "advance (lastIndex re) None line = Some (p, cs)"
    and found: "search_from True (pat re) p cs (lastIndex re) = Some (b, from_b, e)"
    and re': "re' = re\<lparr>lastIndex := b + length (matched_text from_b (snd e))\<rparr>"
    by (auto simp: regexp_exec_def split: option.splits prod.splits)
  from search_from_found [OF found] obtain q where
    idx: "b + length from_b = lastIndex re + length cs" and e: "e \<in> set (ends True (pat re) q from_b)"
    by blast
  from consuming_shorter [OF assms(1) e] have "length (snd e) < length from_b" .
  then have len: "0 < length (matched_text from_b (snd e))"
    "length (matched_text from_b (snd e)) \<le> length from_b"
    by (simp_all add: matched_text_def)
  from search_from_suffix [OF found] have "lastIndex re \<le> b" by simp
  with len(1) have 1: "lastIndex re < b + length (matched_text from_b (snd e))" by linarith
  from len(2) idx advance_length [OF adv]
  have 2: "b + length (matched_text from_b (snd e)) \<le> length line" by linarith
  from 1 2 re' show ?thesis by simp
qed

lemma exec_loop_returns:
  "consuming (pat re) \<Longrightarrow> \<exists>ms re'. exec_loop re line acc = Some (ms, re') \<and> pat re' = pat re"
proof (induction "Suc (length line) - lastIndex re" arbitrary: re acc rule: less_induct)
  case less
  obtain m re1 where ex: "regexp_exec re line = (m, re1)" by (cases "regexp_exec re line")
  show ?case
  proof (cases m)
    case None
    with ex have "pat re1 = pat re"
      by (auto simp: regexp_exec_def split: option.splits prod.splits)
    with ex None show ?thesis by (subst exec_loop.simps) simp
  next
    case (Some found)
    with ex less.prems regexp_exec_progress [of re line found re1]
    have p: "lastIndex re < lastIndex re1" "lastIndex re1 \<le> length line" "pat re1 = pat re"
      by simp_all
    then have "Suc (length line) - lastIndex re1 < Suc (length line) - lastIndex re" by simp
    from less.hyps [OF this, of "acc @ [snd found]"] less.prems p(3)
    obtain ms re' where "exec_loop re1 line (acc @ [snd found]) = Some (ms, re')" "pat re' = pat re"
      by auto
    with ex Some show ?thesis by (subst exec_loop.simps) simp
  qed
qed

lemma rule_lines_returns:
  "consuming (pat re) \<Longrightarrow> \<exists>fs. rule_lines rule re lines idx = Some fs"
proof (induction lines arbitrary: re idx)
  case Nil
  show ?case by simp
next
  case (Cons line rest)
  from exec_loop_returns [OF Cons.prems, of line "[]"] obtain ms re' where
    l: "exec_loop re line [] = Some (ms, re')" "pat re' = pat re" by blast
  with Cons.prems have "consuming (pat re')" by simp
  from Cons.IH [OF this, of "Suc idx"] obtain fs where "rule_lines rule re' rest (Suc idx) = Some fs"
    by blast
  with l show ?case by simp
qed

lemma apply_rule_list_returns:
  "list_all (\<lambda>rule. pattern_backed rule \<longrightarrow>
       (\<exists>r. RegExp_new (the (rule_pattern rule)) = Inr r \<and> consuming r)) rs
     \<Longrightarrow> \<exists>fs. apply_rule_list RegExp_new rs code = Some (Inr fs)"
proof (induction rs)
  case Nil
  show ?case by simp
next
  case (Cons rule rest)
  then obtain gs where g: "apply_rule_list RegExp_new rest code = Some (Inr gs)" by auto
  show ?case
  proof (cases "pattern_backed rule")
    case False
    with g show ?thesis by simp
  next
    case True
    with Cons.prems obtain r where r: "RegExp_new (the (rule_pattern rule)) = Inr r" "consuming r"
      by auto
    then have "consuming (pat (new_regexp r))" by (simp add: new_regexp_def)
    from rule_lines_returns [OF this, of rule "split_lines code" 0] obtain fs where
      "rule_lines rule (new_regexp r) (split_lines code) 0 = Some fs" by blast
    with True r g show ?thesis by simp
  qed
qed

text \<open>
  Claim C3, as the code has it. \<open>applyRules\<close> skips every rule that is disabled or has no
  pattern, whatever its pattern. A malformed pattern in an enabled rule is not skipped: the
  \<open>SyntaxError\<close> of the constructor leaves \<open>applyRules\<close>, which therefore returns no findings,
  and it is thrown as soon as the rules before it have been applied. When the patterns of
  all enabled rules are well formed, and no one of them can match the empty string,
  \<open>applyRules\<close> returns its findings.
\<close>

theorem malformed_pattern_aborts:
  "(rule \<in> set (rules rs) \<and> pattern_backed rule \<and> RegExp_new (the (rule_pattern rule)) = Inl e
      \<longrightarrow> applyRules RegExp_new rs code \<noteq> Some (Inr fs))
   \<and> (rules rs = pre @ rule # post \<and> apply_rule_list RegExp_new pre code = Some (Inr fs)
        \<and> pattern_backed rule \<and> RegExp_new (the (rule_pattern rule)) = Inl e
      \<longrightarrow> applyRules RegExp_new rs code = Some (Inl e))
   \<and> applyRules RegExp_new (rs\<lparr>rules := filter pattern_backed (rules rs)\<rparr>) code
       = applyRules RegExp_new rs code
   \<and> (list_all (\<lambda>rule. pattern_backed rule \<longrightarrow>
          (\<exists>r. RegExp_new (the (rule_pattern rule)) = Inr r \<and> consuming r)) (rules rs)
      \<longrightarrow> (\<exists>gs. applyRules RegExp_new rs code = Some (Inr gs)))"
proof -
  have 1: "applyRules RegExp_new rs code \<noteq> Some (Inr fs)"
    if "rule \<in> set (rules rs)" "pattern_backed rule" "RegExp_new (the (rule_pattern rule)) = Inl e"
    using that malformed_never_returns [of rule "rules rs" RegExp_new e code fs]
    by (simp add: applyRules_def)
  have 2: "applyRules RegExp_new rs code = Some (Inl e)"
    if "rules rs = pre @ rule # post" "apply_rule_list RegExp_new pre code = Some (Inr fs)"
      "pattern_backed rule" "RegExp_new (the (rule_pattern rule)) = Inl e"
    using that by (simp add: applyRules_def apply_rule_list_append)
  have 3: "applyRules RegExp_new (rs\<lparr>rules := filter pattern_backed (rules rs)\<rparr>) code
       = applyRules RegExp_new rs code"
    by (simp add: applyRules_def apply_rule_list_skips)
  have 4: "\<exists>gs. applyRules RegExp_new rs code = Some (Inr gs)"
    if "list_all (\<lambda>rule. pattern_backed rule \<longrightarrow>
          (\<exists>r. RegExp_new (the (rule_pattern rule)) = Inr r \<and> consuming r)) (rules rs)"
    using that apply_rule_list_returns [of RegExp_new "rules rs" code]
    by (simp add: applyRules_def)
  from 1 2 3 4 show ?thesis by blast
qed

text \<open>
  The theorem on the default rules, which return their finding on the two-line example,
  and on the default rules behind a rule with the malformed pattern \<open>(\<close>, where \<open>applyRules\<close>
  throws.
\<close>

theorem malformed_pattern_aborts_witness:
  "applyRules example_RegExp rules_with_malformed two_line_example = Some (Inl SyntaxError)
   \<and> applyRules example_RegExp rules_with_malformed two_line_example
       \<noteq> Some (Inr [finding (rules getDefaultRules ! 0) 0 ''static final int maxRetries''])
   \<and> applyRules example_RegExp
        (getDefaultRules\<lparr>rules := filter pattern_backed (rules getDefaultRules)\<rparr>) two_line_example
       = applyRules example_RegExp getDefaultRules two_line_example
   \<and> (\<exists>gs. applyRules example_RegExp getDefaultRules two_line_example = Some (Inr gs))"
proof -
  have bad: "malformed_rule \<in> set (rules rules_with_malformed)" "pattern_backed malformed_rule"
    "example_RegExp (the (rule_pattern malformed_rule)) = Inl SyntaxError"
    "rules rules_with_malformed = [] @ malformed_rule # rules getDefaultRules"
    "apply_rule_list example_RegExp [] two_line_example = Some (Inr [])"
    by (simp_all add: rules_with_malformed_def malformed_rule_def pattern_backed_def
          example_RegExp_def naming_pattern_def hardcoded_pattern_def esc_def)
  have good: "list_all (\<lambda>rule. pattern_backed rule \<longrightarrow>
          (\<exists>r. example_RegExp (the (rule_pattern rule)) = Inr r \<and> consuming r))
        (rules getDefaultRules)"
    by (simp add: getDefaultRules_def pattern_backed_def example_RegExp_def naming_pattern_def
          hardcoded_pattern_def esc_def naming_rx_def hardcoded_rx_def lits_def spaces_def)
  from bad
    malformed_pattern_aborts
      [of malformed_rule rules_with_malformed example_RegExp SyntaxError two_line_example
          "[finding (rules getDefaultRules ! 0) 0 ''static final int maxRetries'']" "[]"
          "rules getDefaultRules"]
    malformed_pattern_aborts
      [of malformed_rule rules_with_malformed example_RegExp SyntaxError two_line_example
          "[]" "[]" "rules getDefaultRules"]
    good
    malformed_pattern_aborts
      [of malformed_rule getDefaultRules example_RegExp SyntaxError two_line_example
          "[]" "[]" "rules getDefaultRules"]
  show ?thesis by blast
qed

text \<open>
  The claim as stated fails on the default rules behind a rule with the malformed pattern
  \<open>(\<close>: \<open>applyRules\<close> throws the \<open>SyntaxError\<close> and returns nothing, although the default rules
  alone have a finding on the same text.
\<close>

theorem malformed_pattern_counterexample:
  "applyRules example_RegExp rules_with_malformed two_line_example = Some (Inl SyntaxError)
   \<and> applyRules example_RegExp getDefaultRules two_line_example
       = Some (Inr [finding (rules getDefaultRules ! 0) 0 ''static final int maxRetries''])"
  by code_simp

subsection \<open>Suggestions are generated once\<close>

lemma generate_length:
  "length (fst (generateSuggestions_with attempt cache vs)) = length vs"
  by (induction vs arbitrary: cache) (auto simp: case_prod_beta split: option.splits)

lemma generate_Cons_fresh:
  "cache (getSuggestionKey v) = None
     \<Longrightarrow> generateSuggestions_with attempt cache (v # vs)
         = (make_suggestion attempt v
              # fst (generateSuggestions_with attempt
                       (cache(getSuggestionKey v \<mapsto> make_suggestion attempt v)) vs),
            snd (generateSuggestions_with attempt
                   (cache(getSuggestionKey v \<mapsto> make_suggestion attempt v)) vs))"
  by (simp add: case_prod_beta)

lemma generate_Cons_cached:
  "cache (getSuggestionKey v) = Some cached
     \<Longrightarrow> generateSuggestions_with attempt cache (v # vs)
         = (cached # fst (generateSuggestions_with attempt cache vs),
            snd (generateSuggestions_with attempt cache vs))"
  by (simp add: case_prod_beta)

lemma generate_keeps_entries:
  "cache k = Some s \<Longrightarrow> snd (generateSuggestions_with attempt cache vs) k = Some s"
proof (induction vs arbitrary: cache)
  case Nil
  then show ?case by simp
next
  case (Cons v vs)
  show ?case
  proof (cases "cache (getSuggestionKey v)")
    case None
    with Cons.prems have "k \<noteq> getSuggestionKey v" by auto
    with Cons.prems have "(cache(getSuggestionKey v \<mapsto> make_suggestion attempt v)) k = Some s"
      by simp
    then have "snd (generateSuggestions_with attempt
                (cache(getSuggestionKey v \<mapsto> make_suggestion attempt v)) vs) k = Some s"
      by (rule Cons.IH)
    then show ?thesis unfolding generate_Cons_fresh [where cache=cache and v=v, OF None] by simp
  next
    case (Some cached)
    from Cons.prems have "snd (generateSuggestions_with attempt cache vs) k = Some s"
      by (rule Cons.IH)
    then show ?thesis unfolding generate_Cons_cached [where cache=cache and v=v, OF Some] by simp
  qed
qed

lemma generate_caches_results:
  "i < length vs
     \<Longrightarrow> snd (generateSuggestions_with attempt cache vs) (getSuggestionKey (vs ! i))
           = Some (fst (generateSuggestions_with attempt cache vs) ! i)"
proof (induction vs arbitrary: cache i)
  case Nil
  then show ?case by simp
next
  case (Cons v vs)
  show ?case
  proof (cases i)
    case 0
    show ?thesis
    proof (cases "cache (getSuggestionKey v)")
      case None
      have "(cache(getSuggestionKey v \<mapsto> make_suggestion attempt v)) (getSuggestionKey v)
              = Some (make_suggestion attempt v)"
        by simp
      then have "snd (generateSuggestions_with attempt
                  (cache(getSuggestionKey v \<mapsto> make_suggestion attempt v)) vs) (getSuggestionKey v)
              = Some (make_suggestion attempt v)"
        by (rule generate_keeps_entries)
      then show ?thesis unfolding generate_Cons_fresh [where cache=cache and v=v, OF None] 0 by simp
    next
      case (Some cached)
      then have "snd (generateSuggestions_with attempt cache vs) (getSuggestionKey v) = Some cached"
        by (rule generate_keeps_entries)
      then show ?thesis unfolding generate_Cons_cached [where cache=cache and v=v, OF Some] 0 by simp
    qed
  next
    case (Suc j)
    with Cons.prems have j: "j < length vs" by simp
    show ?thesis
    proof (cases "cache (getSuggestionKey v)")
      case None
      have "snd (generateSuggestions_with attempt
                  (cache(getSuggestionKey v \<mapsto> make_suggestion attempt v)) vs)
                (getSuggestionKey (vs ! j))
              = Some (fst (generateSuggestions_with attempt
                  (cache(getSuggestionKey v \<mapsto> make_suggestion attempt v)) vs) ! j)"
        using j by (rule Cons.IH)
      then show ?thesis unfolding generate_Cons_fresh [where cache=cache and v=v, OF None] Suc by simp
    next
      case (Some cached)
      have "snd (generateSuggestions_with attempt cache vs) (getSuggestionKey (vs ! j))
              = Some (fst (generateSuggestions_with attempt cache vs) ! j)"
        using j by (rule Cons.IH)
      then show ?thesis unfolding generate_Cons_cached [where cache=cache and v=v, OF Some] Suc by simp
    qed
  qed
qed

lemma generate_cached_issue:
  "cache (getSuggestionKey v) = Some s
     \<Longrightarrow> generateSuggestions_with attempt cache [v] = ([s], cache)"
  by simp

lemma generate_cached_result:
  assumes "cache k = Some s" and "i < length vs" and "getSuggestionKey (vs ! i) = k"
  shows "fst (generateSuggestions_with attempt cache vs) ! i = s"
proof -
  from assms(1) have "snd (generateSuggestions_with attempt cache vs) k = Some s"
    by (rule generate_keeps_entries)
  with generate_caches_results [OF assms(2), of attempt cache] assms(3) show ?thesis by simp
qed

lemma generate_fresh_result:
  "i < length vs \<Longrightarrow> cache (getSuggestionKey (vs ! i)) = None
     \<Longrightarrow> \<exists>j \<le> i. getSuggestionKey (vs ! j) = getSuggestionKey (vs ! i)
            \<and> fst (generateSuggestions_with attempt cache vs) ! i = make_suggestion attempt (vs ! j)"
proof (induction vs arbitrary: cache i)
  case Nil
  then show ?case by simp
next
  case (Cons v vs)
  show ?case
  proof (cases i)
    case 0
    with Cons.prems(2) have none: "cache (getSuggestionKey v) = None" by simp
    have "fst (generateSuggestions_with attempt cache (v # vs)) ! 0 = make_suggestion attempt v"
      unfolding generate_Cons_fresh [where cache=cache and v=v, OF none] by simp
    with 0 show ?thesis by simp
  next
    case (Suc n)
    with Cons.prems have n: "n < length vs" and fresh: "cache (getSuggestionKey (vs ! n)) = None"
      by simp_all
    show ?thesis
    proof (cases "cache (getSuggestionKey v)")
      case None
      let ?cache = "cache(getSuggestionKey v \<mapsto> make_suggestion attempt v)"
      have step: "fst (generateSuggestions_with attempt cache (v # vs)) ! i
          = fst (generateSuggestions_with attempt ?cache vs) ! n"
        unfolding generate_Cons_fresh [where cache=cache and v=v, OF None] Suc by simp
      show ?thesis
      proof (cases "getSuggestionKey (vs ! n) = getSuggestionKey v")
        case True
        have "?cache (getSuggestionKey v) = Some (make_suggestion attempt v)" by simp
        from generate_cached_result
            [where cache="?cache" and k="getSuggestionKey v" and attempt=attempt, OF this n True]
          step
        have "fst (generateSuggestions_with attempt cache (v # vs)) ! i = make_suggestion attempt v"
          by simp
        with True Suc show ?thesis by (intro exI [of _ 0]) simp
      next
        case False
        with fresh have "?cache (getSuggestionKey (vs ! n)) = None" by simp
        from Cons.IH [where cache="?cache" and i=n, OF n this] obtain j where
          j: "j \<le> n" "getSuggestionKey (vs ! j) = getSuggestionKey (vs ! n)"
            "fst (generateSuggestions_with attempt ?cache vs) ! n = make_suggestion attempt (vs ! j)"
          by blast
        with step Suc show ?thesis by (intro exI [of _ "Suc j"]) simp
      qed
    next
      case (Some cached)
      have step: "fst (generateSuggestions_with attempt cache (v # vs)) ! i
          = fst (generateSuggestions_with attempt cache vs) ! n"
        unfolding generate_Cons_cached [where cache=cache and v=v, OF Some] Suc by simp
      from Cons.IH [where cache=cache and i=n, OF n fresh] obtain j where
        j: "j \<le> n" "getSuggestionKey (vs ! j) = getSuggestionKey (vs ! n)"
          "fst (generateSuggestions_with attempt cache vs) ! n = make_suggestion attempt (vs ! j)"
        by blast
      with step Suc show ?thesis by (intro exI [of _ "Suc j"]) simp
    qed
  qed
qed

lemma make_suggestion_id: "s_id (make_suggestion attempt v) = getSuggestionKey v"
  by (simp add: make_suggestion_def new_suggestion_def fallbackSuggestion_def
        split: sum.splits prod.splits)

lemma generate_keeps_ids:
  "(\<forall>k s. cache k = Some s \<longrightarrow> s_id s = k)
     \<Longrightarrow> snd (generateSuggestions_with attempt cache vs) k = Some s \<Longrightarrow> s_id s = k"
proof (induction vs arbitrary: cache)
  case Nil
  then show ?case by simp
next
  case (Cons v vs)
  show ?case
  proof (cases "cache (getSuggestionKey v)")
    case None
    have "\<forall>k s. (cache(getSuggestionKey v \<mapsto> make_suggestion attempt v)) k = Some s \<longrightarrow> s_id s = k"
      using Cons.prems(1) by (auto simp: make_suggestion_id)
    moreover have "snd (generateSuggestions_with attempt
                (cache(getSuggestionKey v \<mapsto> make_suggestion attempt v)) vs) k = Some s"
      using Cons.prems(2) unfolding generate_Cons_fresh [where cache=cache and v=v, OF None]
      by simp
    ultimately show ?thesis by (rule Cons.IH)
  next
    case (Some cached)
    have "snd (generateSuggestions_with attempt cache vs) k = Some s"
      using Cons.prems(2) unfolding generate_Cons_cached [where cache=cache and v=v, OF Some]
      by simp
    with Cons.prems(1) show ?thesis by (rule Cons.IH)
  qed
qed

text \<open>
  Claim C7. The key of an issue is its file name, its line number and the hash of its
  description, joined by colons. A call of \<open>generateSuggestions\<close> on a list of issues leaves,
  for each issue of the list, the suggestion it returned for that issue in the cache under
  the key of the issue; when every entry of the cache before the call had its key as its
  id, the id of that suggestion is the key. A second call on an issue with the file name,
  line number and description of one of them returns exactly the entry the cache holds
  under the key, which is the suggestion the first call returned, and leaves the cache as
  it is: the result does not depend on what context retrieval and template synthesis would
  compute in the second call.
\<close>

theorem second_call_returns_cached_suggestion:
  assumes "i < length vs"
    and "fileName v = fileName (vs ! i)"
    and "lineNumber v = lineNumber (vs ! i)"
    and "description v = description (vs ! i)"
  shows "getSuggestion (snd (generateSuggestions_with attempt cache vs)) (getSuggestionKey v)
           = Some (fst (generateSuggestions_with attempt cache vs) ! i)
         \<and> fst (generateSuggestions_with attempt' (snd (generateSuggestions_with attempt cache vs)) [v])
           = [the (getSuggestion (snd (generateSuggestions_with attempt cache vs)) (getSuggestionKey v))]
         \<and> generateSuggestions_with attempt' (snd (generateSuggestions_with attempt cache vs)) [v]
           = ([fst (generateSuggestions_with attempt cache vs) ! i],
              snd (generateSuggestions_with attempt cache vs))
         \<and> ((\<forall>k s. cache k = Some s \<longrightarrow> s_id s = k) \<longrightarrow>
              s_id (fst (generateSuggestions_with attempt cache vs) ! i) = getSuggestionKey v)
         \<and> (cache (getSuggestionKey v) = None \<longrightarrow>
              (\<exists>j \<le> i. getSuggestionKey (vs ! j) = getSuggestionKey v
                 \<and> fst (generateSuggestions_with attempt cache vs) ! i = make_suggestion attempt (vs ! j)))
         \<and> getSuggestionKey v
           = fileName v @ '':'' @ show_int (lineNumber v) @ '':'' @ hashString (description v)"
proof -
  let ?first = "generateSuggestions_with attempt cache vs"
  from assms(2-4) have key: "getSuggestionKey v = getSuggestionKey (vs ! i)"
    by (simp add: getSuggestionKey_def)
  with generate_caches_results [OF assms(1), of attempt cache]
  have stored: "snd ?first (getSuggestionKey v) = Some (fst ?first ! i)"
    by simp
  from stored
    generate_cached_issue [of "snd ?first" v "fst ?first ! i" attempt']
  have second: "generateSuggestions_with attempt' (snd ?first) [v] = ([fst ?first ! i], snd ?first)"
    by simp
  have ids: "s_id (fst ?first ! i) = getSuggestionKey v"
    if "\<forall>k s. cache k = Some s \<longrightarrow> s_id s = k"
    using that stored by (rule generate_keeps_ids)
  have made: "\<exists>j \<le> i. getSuggestionKey (vs ! j) = getSuggestionKey v
                 \<and> fst ?first ! i = make_suggestion attempt (vs ! j)"
    if "cache (getSuggestionKey v) = None"
    using generate_fresh_result [OF assms(1), of cache attempt] that key by simp
  from stored second ids made show ?thesis
    by (simp add: getSuggestion_def getSuggestionKey_def)
qed

text \<open>
  The theorem on one issue and the empty cache: the first call is made without an editor
  and stores the suggestion it generates under the key of the issue; the second call is
  made with an editor and with another suggested fix in the issue, and it returns the entry
  of the cache, whose original code is the text the first call had. The hash of \<open>abc\<close> is
  \<open>96354\<close>.
\<close>

theorem second_call_returns_cached_suggestion_witness:
  "getSuggestion (snd (generateSuggestions None Map.empty [keyword_issue 1 ''token'']))
       (getSuggestionKey ((keyword_issue 1 ''token'')\<lparr>suggestedFix := ''Mask the token''\<rparr>))
     = Some (make_suggestion (source_attempt None) (keyword_issue 1 ''token''))
   \<and> generateSuggestions (Some ''log.info(token)'')
       (snd (generateSuggestions None Map.empty [keyword_issue 1 ''token'']))
       [(keyword_issue 1 ''token'')\<lparr>suggestedFix := ''Mask the token''\<rparr>]
     = ([make_suggestion (source_attempt None) (keyword_issue 1 ''token'')],
        snd (generateSuggestions None Map.empty [keyword_issue 1 ''token'']))
   \<and> s_id (make_suggestion (source_attempt None) (keyword_issue 1 ''token''))
     = getSuggestionKey ((keyword_issue 1 ''token'')\<lparr>suggestedFix := ''Mask the token''\<rparr>)
   \<and> originalCode (make_suggestion (source_attempt None) (keyword_issue 1 ''token''))
     = ''Unable to retrieve code context''
   \<and> make_suggestion (source_attempt (Some ''log.info(token)''))
         ((keyword_issue 1 ''token'')\<lparr>suggestedFix := ''Mask the token''\<rparr>)
     \<noteq> make_suggestion (source_attempt None) (keyword_issue 1 ''token'')
   \<and> hashString ''abc'' = ''96354''"
proof -
  let ?old = "keyword_issue 1 ''token''"
  let ?new = "(keyword_issue 1 ''token'')\<lparr>suggestedFix := ''Mask the token''\<rparr>"
  have first: "fst (generateSuggestions_with (source_attempt None) Map.empty [?old]) ! 0
      = make_suggestion (source_attempt None) ?old"
    by simp
  have orig: "originalCode (make_suggestion (source_attempt None) ?old)
      = ''Unable to retrieve code context''"
    by (simp add: source_attempt_def make_suggestion_def new_suggestion_def getCodeContext_def)
  have "s_suggestedFix (make_suggestion (source_attempt (Some ''log.info(token)'')) ?new)
      = ''Mask the token''"
    by (simp add: source_attempt_def make_suggestion_def new_suggestion_def or_else_def)
  moreover have "s_suggestedFix (make_suggestion (source_attempt None) ?old) \<noteq> ''Mask the token''"
    by (simp add: source_attempt_def make_suggestion_def new_suggestion_def or_else_def
          keyword_issue_def)
  ultimately have other: "make_suggestion (source_attempt (Some ''log.info(token)'')) ?new
      \<noteq> make_suggestion (source_attempt None) ?old"
    by auto
  have hash: "hashString ''abc'' = ''96354''"
    by (simp add: hashString_def hash_step_def to_int32_def show_int_def show_digits.simps
          digit_char_def)
  have hyps: "(0::nat) < length [?old]" "fileName ?new = fileName ([?old] ! 0)"
    "lineNumber ?new = lineNumber ([?old] ! 0)" "description ?new = description ([?old] ! 0)"
    "\<forall>k s. (Map.empty :: suggestion_cache) k = Some s \<longrightarrow> s_id s = k"
    by simp_all
  note inst = second_call_returns_cached_suggestion
      [of 0 "[keyword_issue 1 ''token'']"
          "(keyword_issue 1 ''token'')\<lparr>suggestedFix := ''Mask the token''\<rparr>"
          "source_attempt None" Map.empty "source_attempt (Some ''log.info(token)'')",
       OF hyps(1-4)]
  from inst have 1: "getSuggestion (snd (generateSuggestions_with (source_attempt None) Map.empty [?old]))
       (getSuggestionKey ?new) = Some (fst (generateSuggestions_with (source_attempt None) Map.empty [?old]) ! 0)"
    by (rule conjunct1)
  from inst have 2: "generateSuggestions_with (source_attempt (Some ''log.info(token)''))
       (snd (generateSuggestions_with (source_attempt None) Map.empty [?old])) [?new]
     = ([fst (generateSuggestions_with (source_attempt None) Map.empty [?old]) ! 0],
        snd (generateSuggestions_with (source_attempt None) Map.empty [?old]))"
    by (rule conjunct1 [OF conjunct2 [OF conjunct2]])
  from inst hyps(5) have 3: "s_id (fst (generateSuggestions_with (source_attempt None) Map.empty [?old]) ! 0)
      = getSuggestionKey ?new"
    by blast
  from 1 2 3 orig other hash show ?thesis
    unfolding generateSuggestions_def first by blast
qed


subsection \<open>One suggestion for each issue\<close>

lemma generate_append:
  "generateSuggestions_with attempt cache (xs @ ys)
     = (fst (generateSuggestions_with attempt cache xs)
          @ fst (generateSuggestions_with attempt (snd (generateSuggestions_with attempt cache xs)) ys),
        snd (generateSuggestions_with attempt (snd (generateSuggestions_with attempt cache xs)) ys))"
  by (induction xs arbitrary: cache) (auto simp: case_prod_beta split: option.splits)

lemma generate_other_keys:
  "cache k = None \<Longrightarrow> k \<notin> getSuggestionKey ` set vs
     \<Longrightarrow> snd (generateSuggestions_with attempt cache vs) k = None"
  by (induction vs arbitrary: cache) (auto simp: case_prod_beta split: option.splits)

text \<open>
  Claim C8. \<open>generateSuggestions\<close> returns one suggestion for each issue, and each is in the
  cache under the key of its issue afterwards. When the \<open>try\<close> block fails for an issue
  whose key is not cached and is not the key of an earlier issue of the list, the
  suggestion returned for that issue is the fallback, whose generated code is the comment
  \<open>// Suggestion unavailable\<close> and the line \<open>// Please manually fix:\<close> with the suggested fix of
  the issue, and the fallback is cached under the key of the issue.
\<close>

theorem one_suggestion_per_issue:
  "length (fst (generateSuggestions_with attempt cache vs)) = length vs
   \<and> (i < length vs \<longrightarrow>
        snd (generateSuggestions_with attempt cache vs) (getSuggestionKey (vs ! i))
          = Some (fst (generateSuggestions_with attempt cache vs) ! i))
   \<and> (vs = pre @ v # post \<and> attempt v = Inl err \<and> cache (getSuggestionKey v) = None
        \<and> getSuggestionKey v \<notin> getSuggestionKey ` set pre \<longrightarrow>
        fst (generateSuggestions_with attempt cache vs) ! length pre = fallbackSuggestion v
        \<and> snd (generateSuggestions_with attempt cache vs) (getSuggestionKey v)
            = Some (fallbackSuggestion v))
   \<and> aiGeneratedCode (fallbackSuggestion v)
       = ''// Suggestion unavailable'' @ nl @ ''// Please manually fix: '' @ suggestedFix v"
proof -
  have fallback: "fst (generateSuggestions_with attempt cache vs) ! length pre = fallbackSuggestion v
        \<and> snd (generateSuggestions_with attempt cache vs) (getSuggestionKey v)
            = Some (fallbackSuggestion v)"
    if vs: "vs = pre @ v # post" and err: "attempt v = Inl err"
      and fresh: "cache (getSuggestionKey v) = None" "getSuggestionKey v \<notin> getSuggestionKey ` set pre"
  proof -
    let ?c1 = "snd (generateSuggestions_with attempt cache pre)"
    have none: "?c1 (getSuggestionKey v) = None"
      using fresh by (rule generate_other_keys)
    have "fst (generateSuggestions_with attempt ?c1 (v # post)) ! 0 = fallbackSuggestion v"
      using none err by (simp add: make_suggestion_def case_prod_beta)
    then have at: "fst (generateSuggestions_with attempt cache vs) ! length pre = fallbackSuggestion v"
      by (simp add: vs generate_append nth_append generate_length)
    have "length pre < length vs" by (simp add: vs)
    from generate_caches_results [OF this, of attempt cache] at vs show ?thesis by simp
  qed
  from generate_length [of attempt cache vs] generate_caches_results [of i vs attempt cache] fallback
  show ?thesis by (simp add: fallbackSuggestion_def)
qed

text \<open>
  The theorem on two issues where the \<open>try\<close> block fails for every issue: both get their
  fallback suggestions.
\<close>

theorem one_suggestion_per_issue_witness:
  "fst (generateSuggestions_with (\<lambda>v. Inl (Error ''no context'')) Map.empty
          [keyword_issue 1 ''token'', keyword_issue 2 ''password''])
     = [fallbackSuggestion (keyword_issue 1 ''token''), fallbackSuggestion (keyword_issue 2 ''password'')]
   \<and> snd (generateSuggestions_with (\<lambda>v. Inl (Error ''no context'')) Map.empty
          [keyword_issue 1 ''token'', keyword_issue 2 ''password''])
        (getSuggestionKey (keyword_issue 1 ''token''))
     = Some (fallbackSuggestion (keyword_issue 1 ''token''))
   \<and> aiGeneratedCode (fallbackSuggestion (keyword_issue 1 ''token''))
     = ''// Suggestion unavailable'' @ nl @ ''// Please manually fix: ''
         @ ''Review and remove sensitive keyword '' @ quoted ''token'' @ '' from logging statement.''"
proof -
  let ?vs = "[keyword_issue 1 ''token'', keyword_issue 2 ''password'']"
  let ?attempt = "\<lambda>v :: VulnerabilityIssue. Inl (Error ''no context'') :: error + string \<times> string"
  have keys: "getSuggestionKey (keyword_issue 1 ''token'') \<noteq> getSuggestionKey (keyword_issue 2 ''password'')"
    by (simp add: getSuggestionKey_def keyword_issue_def show_int_def show_digits.simps digit_char_def)
  have all: "fst (generateSuggestions_with ?attempt Map.empty ?vs)
     = [fallbackSuggestion (keyword_issue 1 ''token''), fallbackSuggestion (keyword_issue 2 ''password'')]"
    using keys by (simp add: make_suggestion_def)
  have fixtext: "suggestedFix (keyword_issue 1 ''token'')
     = ''Review and remove sensitive keyword '' @ quoted ''token'' @ '' from logging statement.''"
    by (simp add: keyword_issue_def)
  from all fixtext
    one_suggestion_per_issue
      [of "\<lambda>v. Inl (Error ''no context'')" Map.empty
          "[keyword_issue 1 ''token'', keyword_issue 2 ''password'']" 0 "[]"
          "keyword_issue 1 ''token''" "[keyword_issue 2 ''password'']" "Error ''no context''"]
  show ?thesis by simp
qed

end
